theory Spec2Isabelle
  imports Complex_Main "HOL-Library.AList" "HOL-Library.Char_ord" "HOL-Library.List_Lexorder"
begin

section \<open>XNotifBot: the polling and change-detection engine\<close>

text \<open>
  A shallow embedding of \<^verbatim>\<open>XNotifBot.py\<close>. The module-level dictionary
  \<^verbatim>\<open>bot_state\<close> becomes a record that every function takes and returns; the wall
  clock, the calls of \<^verbatim>\<open>time.sleep\<close> and the state file on disk are the fields of
  a second record around it. What lies outside the source file (the Python library
  functions on dates and sets, the configured account name, the remote API) is a
  parameter of the functions that use it.
\<close>

subsection \<open>Values\<close>

text \<open>
  A \<^verbatim>\<open>datetime\<close> is the number of microseconds since 0001-01-01 00:00:00, from 0
  (\<^verbatim>\<open>datetime.min\<close>) to 9999-12-31 23:59:59.999999 (\<^verbatim>\<open>datetime.max\<close>), over
  3652059 days; a \<^verbatim>\<open>timedelta\<close> is a difference of two such numbers. Python's integers
  are unbounded: \<open>int\<close>. The clock readings and the timestamps that the functions are
  given are datetimes; where the code computes a datetime of its own
  (\<^verbatim>\<open>now - timedelta(...)\<close>), a result outside the range is an \<^verbatim>\<open>OverflowError\<close>.
\<close>

type_synonym datetime = int

definition datetime_span :: int where
  "datetime_span = 3652059 * 86400 * 1000000"

definition valid_datetime :: "int \<Rightarrow> bool" where
  "valid_datetime d = (0 \<le> d \<and> d < datetime_span)"

definition minutes :: "int \<Rightarrow> int" where
  "minutes n = n * 60000000"

definition seconds :: "int \<Rightarrow> int" where
  "seconds n = n * 1000000"

text \<open>
  An entry of \<^verbatim>\<open>last_check_time\<close> is a \<^verbatim>\<open>datetime\<close> object when
  \<^verbatim>\<open>should_check\<close> stored it in this process, and a \<^verbatim>\<open>str\<close> when it came back
  from the state file.
\<close>

datatype stamp = DT datetime | TS string

text \<open>
  What \<^verbatim>\<open>datetime.fromisoformat\<close> does with a string: it raises, or it returns a
  datetime without a time zone, or one with a UTC offset (which cannot be subtracted
  from the naive \<^verbatim>\<open>datetime.now()\<close>).
\<close>

datatype parsed = Unparseable | Naive datetime | Aware

datatype py_error = TypeError | OverflowError

record metrics =
  reply_count :: int
  retweet_count :: int
  like_count :: int
  quote_count :: int

record tweet =
  tweet_id :: int
  tweet_text :: string
  created_at :: datetime
  author_id :: int
  public_metrics :: metrics

record user =
  user_ident :: int
  username :: string
  followers_count :: int

text \<open>
  \<^verbatim>\<open>bot_state\<close>. The two dictionaries are association lists in insertion order
  with distinct keys (\<^verbatim>\<open>d[k] = v\<close> is \<^const>\<open>AList.update\<close>, \<^verbatim>\<open>d.get(k)\<close> is
  \<^const>\<open>map_of\<close>); \<^verbatim>\<open>processed_mentions\<close> is a Python \<^verbatim>\<open>set\<close> of strings, which
  keeps no order of insertion.
\<close>

record bot_state =
  user_id :: "int option"
  last_follower_count :: int
  last_tweet_id :: "int option"
  processed_mentions :: "string set"
  tweet_metrics :: "(string \<times> metrics) list"
  notifications :: "string list"
  last_check_time :: "(string \<times> stamp) list"

text \<open>
  The environment of the module: \<^verbatim>\<open>str(d)\<close> and \<^verbatim>\<open>d.strftime("%Y-%m-%d %H:%M:%S")\<close>
  of a datetime, \<^verbatim>\<open>datetime.fromisoformat\<close>, the order in which \<^verbatim>\<open>list(s)\<close>
  enumerates a set of strings (the order of the hash table, which Python leaves
  unspecified), and \<^verbatim>\<open>TWITTER_USERNAME\<close>.
\<close>

record env =
  dt_str :: "datetime \<Rightarrow> string"
  strftime :: "datetime \<Rightarrow> string"
  fromisoformat :: "string \<Rightarrow> parsed"
  set_list :: "string set \<Rightarrow> string list"
  twitter_username :: string

text \<open>\<^verbatim>\<open>str(n)\<close> of an integer: its decimal digits, with a minus sign when negative.\<close>

definition digit :: "nat \<Rightarrow> char" where
  "digit n = ''0123456789'' ! (n mod 10)"

fun str_nat :: "nat \<Rightarrow> string" where
  "str_nat n = (if n < 10 then [digit n] else str_nat (n div 10) @ [digit n])"

declare str_nat.simps [simp del]

definition str_int :: "int \<Rightarrow> string" where
  "str_int i = (if i < 0 then CHR ''-'' # str_nat (nat (- i)) else str_nat (nat i))"

subsection \<open>The state file\<close>

text \<open>
  The document \<^verbatim>\<open>json.dump\<close> writes: \<^verbatim>\<open>bot_state\<close> with the set as a list and
  every value JSON cannot represent (the datetimes) replaced by its \<^verbatim>\<open>str\<close>
  (\<^verbatim>\<open>default=str\<close>). \<^verbatim>\<open>json.dump\<close> and \<^verbatim>\<open>json.load\<close> are taken to be inverse on
  such documents.
\<close>

record state_doc =
  doc_user_id :: "int option"
  doc_last_follower_count :: int
  doc_last_tweet_id :: "int option"
  doc_processed_mentions :: "string list"
  doc_tweet_metrics :: "(string \<times> metrics) list"
  doc_notifications :: "string list"
  doc_last_check_time :: "(string \<times> string) list"

text \<open>
  \<^verbatim>\<open>STATE_FILE\<close> on disk: absent, holding a complete document, or holding the
  beginning of one (a text that \<^verbatim>\<open>json.load\<close> rejects: the document is a JSON
  object, and no proper prefix of an object's text is a JSON value).
\<close>

datatype disk_file = Missing | Intact state_doc | Truncated

text \<open>
  What can go wrong in \<^verbatim>\<open>with open(STATE_FILE, 'w') as f: json.dump(...)\<close>:
  \<^verbatim>\<open>open\<close> raises before the file is touched, or the write raises after
  \<^verbatim>\<open>open\<close> has emptied the file.
\<close>

datatype write_fault = No_fault | Open_fails | Dump_fails

datatype report = State_saved | Error_saving

definition stamp_str :: "env \<Rightarrow> stamp \<Rightarrow> string" where
  "stamp_str E v = (case v of DT d \<Rightarrow> dt_str E d | TS t \<Rightarrow> t)"

definition save_data :: "env \<Rightarrow> bot_state \<Rightarrow> state_doc" where
  "save_data E s =
     \<lparr> doc_user_id = user_id s,
       doc_last_follower_count = last_follower_count s,
       doc_last_tweet_id = last_tweet_id s,
       doc_processed_mentions = set_list E (processed_mentions s),
       doc_tweet_metrics = tweet_metrics s,
       doc_notifications = notifications s,
       doc_last_check_time = map (\<lambda>(k, v). (k, stamp_str E v)) (last_check_time s) \<rparr>"

text \<open>
  \<^verbatim>\<open>save_state\<close>: the new content of the file and the line printed. The
  \<^verbatim>\<open>except Exception\<close> clause swallows both failures; \<^verbatim>\<open>bot_state\<close> is only read.
\<close>

definition save_state :: "env \<Rightarrow> write_fault \<Rightarrow> bot_state \<Rightarrow> disk_file \<Rightarrow> disk_file \<times> report" where
  "save_state E fault s file =
     (case fault of
        Open_fails \<Rightarrow> (file, Error_saving)
      | Dump_fails \<Rightarrow> (Truncated, Error_saving)
      | No_fault \<Rightarrow> (Intact (save_data E s), State_saved))"

text \<open>
  \<^verbatim>\<open>load_state\<close>: the value returned and \<^verbatim>\<open>bot_state\<close> afterwards.
  \<^verbatim>\<open>bot_state.update(data)\<close> overwrites every key of the document.
\<close>

definition load_state :: "disk_file \<Rightarrow> bot_state \<Rightarrow> bool \<times> bot_state" where
  "load_state file s =
     (case file of
        Missing \<Rightarrow> (False, s)
      | Truncated \<Rightarrow> (False, s)
      | Intact d \<Rightarrow>
          (True,
           s\<lparr> user_id := doc_user_id d,
              last_follower_count := doc_last_follower_count d,
              last_tweet_id := doc_last_tweet_id d,
              processed_mentions := set (doc_processed_mentions d),
              tweet_metrics := doc_tweet_metrics d,
              notifications := doc_notifications d,
              last_check_time := map (\<lambda>(k, t). (k, TS t)) (doc_last_check_time d) \<rparr>))"

subsection \<open>Notifications\<close>

definition newline :: char where
  "newline = CHR 0x0A"

text \<open>
  \<^verbatim>\<open>log_notification\<close>, as far as \<^verbatim>\<open>bot_state\<close> goes: the entry appended to the
  in-memory list (the same entry is appended to \<^verbatim>\<open>NOTIFICATIONS_FILE\<close>).
\<close>

definition log_entry :: "env \<Rightarrow> datetime \<Rightarrow> string \<Rightarrow> string" where
  "log_entry E now message = ''['' @ strftime E now @ ''] '' @ message @ [newline]"

definition log_notification :: "env \<Rightarrow> datetime \<Rightarrow> string \<Rightarrow> bot_state \<Rightarrow> bot_state" where
  "log_notification E now message s =
     s\<lparr> notifications := notifications s @ [log_entry E now message] \<rparr>"

subsection \<open>Floating-point numbers\<close>

text \<open>
  A Python \<^verbatim>\<open>float\<close> is an IEEE 754 binary64 number, and a division rounds the exact
  quotient to the nearest such number, a tie going to the even significand.
  \<open>double\<close> is that rounding, on the rationals: \<open>rne\<close> rounds to the nearest integer
  (ties to even), \<open>expo x\<close> is the binary exponent of a positive \<open>x\<close> (the \<open>e\<close> with
  \<open>2 powi e \<le> x < 2 powi (e + 1)\<close>), and the significand has 53 bits. The exponent is
  left unbounded: the quotients of the program, seconds and minutes between two
  datetimes, are zero or between \<open>1e-8\<close> and \<open>1e12\<close> in absolute value, far from the
  subnormal numbers and from overflow.
\<close>

definition rne :: "rat \<Rightarrow> int" where
  "rne x = (let f = \<lfloor>x\<rfloor>; r = x - of_int f in
            if r < 1 / 2 then f else if 1 / 2 < r then f + 1 else if even f then f else f + 1)"

function bit_length :: "int \<Rightarrow> nat" where
  "bit_length n = (if n \<le> 0 then 0 else Suc (bit_length (n div 2)))"
  by pat_completeness auto
termination
  by (relation "measure nat") auto

declare bit_length.simps [simp del]

definition expo :: "rat \<Rightarrow> int" where
  "expo x = (case quotient_of x of (n, d) \<Rightarrow>
     (let e = int (bit_length n) - int (bit_length d)
      in if 2 powi e \<le> x then e else e - 1))"

definition double :: "rat \<Rightarrow> rat" where
  "double x = (if x = 0 then 0 else
      of_int (rne (x * 2 powi (52 - expo \<bar>x\<bar>))) * 2 powi (expo \<bar>x\<bar> - 52))"

text \<open>
  \<^verbatim>\<open>timedelta.total_seconds()\<close>: the microseconds divided by \<^verbatim>\<open>10**6\<close>, as a
  \<^verbatim>\<open>float\<close>.
\<close>

definition total_seconds :: "int \<Rightarrow> rat" where
  "total_seconds td = double (of_int td / 1000000)"

subsection \<open>The scheduler gate\<close>

text \<open>
  \<^verbatim>\<open>should_check\<close> at clock reading \<open>now\<close>. The replacement of a rejected string,
  \<^verbatim>\<open>now - timedelta(minutes=min_interval_minutes+1)\<close>, is computed in the
  \<^verbatim>\<open>except\<close> clause and raises when it is not a datetime. In
  \<^verbatim>\<open>time_passed.total_seconds() / 60 >= min_interval_minutes\<close> the quotient is a
  \<^verbatim>\<open>float\<close>, which Python compares with the integer exactly.
\<close>

definition should_check :: "env \<Rightarrow> string \<Rightarrow> int \<Rightarrow> datetime \<Rightarrow> bot_state \<Rightarrow> py_error + bool \<times> bot_state" where
  "should_check E check_type min_interval_minutes now s =
     (case map_of (last_check_time s) check_type of
        None \<Rightarrow>
          Inr (True, s\<lparr> last_check_time := AList.update check_type (DT now) (last_check_time s) \<rparr>)
      | Some stored \<Rightarrow>
          (case (case stored of
                   DT d \<Rightarrow> Inr d
                 | TS t \<Rightarrow>
                     (case fromisoformat E t of
                        Unparseable \<Rightarrow>
                          if valid_datetime (now - minutes (min_interval_minutes + 1))
                          then Inr (now - minutes (min_interval_minutes + 1))
                          else Inl OverflowError
                      | Naive d \<Rightarrow> Inr d
                      | Aware \<Rightarrow> Inl TypeError)) of
             Inl e \<Rightarrow> Inl e
           | Inr last_check \<Rightarrow>
               (let time_passed = now - last_check;
                    should_proceed =
                      (double (total_seconds time_passed / 60) \<ge> of_int min_interval_minutes)
                in Inr (should_proceed,
                        if should_proceed
                        then s\<lparr> last_check_time := AList.update check_type (DT now) (last_check_time s) \<rparr>
                        else s))))"

subsection \<open>The retrying call wrapper\<close>

text \<open>
  The running system: \<^verbatim>\<open>bot_state\<close>, the wall clock, the arguments of the calls of
  \<^verbatim>\<open>time.sleep\<close> so far (in seconds, oldest first) and the state file. The clock
  advances in \<^verbatim>\<open>time.sleep\<close> only.
\<close>

record sys =
  bot :: bot_state
  clock :: datetime
  slept :: "int list"
  state_file :: disk_file

definition sleep :: "int \<Rightarrow> sys \<Rightarrow> sys" where
  "sleep n w = w\<lparr> clock := clock w + seconds n, slept := slept w @ [n] \<rparr>"

text \<open>
  An API operation, as \<^verbatim>\<open>safe_api_call\<close> sees it: what its \<open>n\<close>-th invocation
  (counted from 0) does.
\<close>

datatype 'r outcome = Returned 'r | TooManyRequests | OtherException

definition max_retries :: nat where
  "max_retries = 3"

function safe_api_loop :: "(nat \<Rightarrow> 'r outcome) \<Rightarrow> nat \<Rightarrow> sys \<Rightarrow> 'r option \<times> sys" where
  "safe_api_loop func retry_count w =
     (if retry_count < max_retries then
        (case func retry_count of
           Returned r \<Rightarrow> (Some r, w)
         | TooManyRequests \<Rightarrow>
             (let retry_count' = retry_count + 1;
                  wait_time = 60 * 2 ^ retry_count'
              in safe_api_loop func retry_count' (sleep wait_time w))
         | OtherException \<Rightarrow>
             (let retry_count' = retry_count + 1;
                  wait_time = 30 * int retry_count'
              in safe_api_loop func retry_count' (sleep wait_time w)))
      else (None, w))"
  by pat_completeness auto
termination
  by (relation "measure (\<lambda>(func, retry_count, w). max_retries - retry_count)") auto

declare safe_api_loop.simps [simp del]

definition safe_api_call :: "(nat \<Rightarrow> 'r outcome) \<Rightarrow> sys \<Rightarrow> 'r option \<times> sys" where
  "safe_api_call func w = safe_api_loop func 0 w"

subsection \<open>The remote API and the helpers of the detectors\<close>

text \<open>
  The operations of \<^verbatim>\<open>client\<close> during one run of a detector. A response is kept as
  its \<^verbatim>\<open>data\<close>: a user or \<^verbatim>\<open>None\<close> for \<^verbatim>\<open>get_user\<close>, a list for the others
  (\<^verbatim>\<open>None\<close> and the empty list are both falsy, and both are \<open>[]\<close> here).
\<close>

record api =
  get_user :: "nat \<Rightarrow> user option outcome"
  get_users_tweets :: "nat \<Rightarrow> tweet list outcome"
  get_users_mentions :: "nat \<Rightarrow> tweet list outcome"
  get_users :: "int list \<Rightarrow> nat \<Rightarrow> user list outcome"

text \<open>\<^verbatim>\<open>log_notification\<close> and \<^verbatim>\<open>save_state\<close> inside the running system.\<close>

definition notify :: "env \<Rightarrow> string \<Rightarrow> sys \<Rightarrow> sys" where
  "notify E message w = w\<lparr> bot := log_notification E (clock w) message (bot w) \<rparr>"

definition persist :: "env \<Rightarrow> write_fault \<Rightarrow> sys \<Rightarrow> sys" where
  "persist E fault w = w\<lparr> state_file := fst (save_state E fault (bot w) (state_file w)) \<rparr>"

definition tweet_url :: "string \<Rightarrow> string \<Rightarrow> string" where
  "tweet_url name ident = ''https://twitter.com/'' @ name @ ''/status/'' @ ident"

fun join :: "string \<Rightarrow> string list \<Rightarrow> string" where
  "join sep [] = []"
| "join sep [x] = x"
| "join sep (x # y # ys) = x @ sep @ join sep (y # ys)"

subsection \<open>Follower detector\<close>

definition follower_message :: "int \<Rightarrow> int \<Rightarrow> string" where
  "follower_message follower_diff current_follower_count =
     ''Follower count changed by '' @ str_int follower_diff @ ''. New total: ''
       @ str_int current_follower_count"

definition check_new_followers :: "env \<Rightarrow> api \<Rightarrow> write_fault \<Rightarrow> sys \<Rightarrow> py_error + sys" where
  "check_new_followers E A fault w =
     (case should_check E ''followers'' 60 (clock w) (bot w) of
        Inl e \<Rightarrow> Inl e
      | Inr (proceed, s1) \<Rightarrow>
          if \<not> proceed then Inr (w\<lparr> bot := s1 \<rparr>)
          else
            (case safe_api_call (get_user A) (w\<lparr> bot := s1 \<rparr>) of
               (None, w2) \<Rightarrow> Inr w2
             | (Some None, w2) \<Rightarrow> Inr w2
             | (Some (Some user_data), w2) \<Rightarrow>
                 (let current_follower_count = followers_count user_data in
                  if last_follower_count (bot w2) = 0 then
                    Inr (persist E fault
                          (w2\<lparr> bot := (bot w2)\<lparr> last_follower_count := current_follower_count \<rparr> \<rparr>))
                  else
                    (let follower_diff = current_follower_count - last_follower_count (bot w2);
                         w3 = (if follower_diff \<noteq> 0
                               then notify E (follower_message follower_diff current_follower_count) w2
                               else w2)
                     in Inr (persist E fault
                          (w3\<lparr> bot := (bot w3)\<lparr> last_follower_count := current_follower_count \<rparr> \<rparr>))))))"

subsection \<open>New-post detector\<close>

definition new_tweet_message :: "env \<Rightarrow> tweet \<Rightarrow> string" where
  "new_tweet_message E newest_tweet =
     (let m = public_metrics newest_tweet in
      ''New tweet posted!'' @ [newline]
      @ ''Content: '' @ take 100 (tweet_text newest_tweet) @ ''...'' @ [newline]
      @ ''Replies: '' @ str_int (reply_count m) @ [newline]
      @ ''Retweets: '' @ str_int (retweet_count m) @ [newline]
      @ ''Likes: '' @ str_int (like_count m) @ [newline]
      @ ''Quotes: '' @ str_int (quote_count m) @ [newline]
      @ ''URL: '' @ tweet_url (twitter_username E) (str_int (tweet_id newest_tweet)))"

definition check_new_tweets :: "env \<Rightarrow> api \<Rightarrow> write_fault \<Rightarrow> sys \<Rightarrow> py_error + sys" where
  "check_new_tweets E A fault w =
     (case should_check E ''tweets'' 30 (clock w) (bot w) of
        Inl e \<Rightarrow> Inl e
      | Inr (proceed, s1) \<Rightarrow>
          if \<not> proceed then Inr (w\<lparr> bot := s1 \<rparr>)
          else
            (case safe_api_call (get_users_tweets A) (w\<lparr> bot := s1 \<rparr>) of
               (None, w2) \<Rightarrow> Inr w2
             | (Some [], w2) \<Rightarrow> Inr w2
             | (Some (newest_tweet # older), w2) \<Rightarrow>
                 (let newest_tweet_id = tweet_id newest_tweet in
                  case last_tweet_id (bot w2) of
                    None \<Rightarrow>
                      Inr (persist E fault
                            (w2\<lparr> bot := (bot w2)\<lparr> last_tweet_id := Some newest_tweet_id \<rparr> \<rparr>))
                  | Some stored_id \<Rightarrow>
                      if str_int newest_tweet_id \<noteq> str_int stored_id then
                        (let w3 = notify E (new_tweet_message E newest_tweet) w2
                         in Inr (persist E fault
                            (w3\<lparr> bot := (bot w3)\<lparr> last_tweet_id := Some newest_tweet_id \<rparr> \<rparr>)))
                      else Inr w2)))"

subsection \<open>Mention detector\<close>

text \<open>
  \<^verbatim>\<open>author_map.get\<close>: in the dictionary comprehension a later user with the same id
  replaces an earlier one.
\<close>

definition author_map :: "user list option \<Rightarrow> int \<Rightarrow> user option" where
  "author_map authors =
     (case authors of
        None \<Rightarrow> (\<lambda>i. None)
      | Some us \<Rightarrow> map_of (rev (map (\<lambda>u. (user_ident u, u)) us)))"

definition mention_message :: "(int \<Rightarrow> user option) \<Rightarrow> tweet \<Rightarrow> string" where
  "mention_message authors t =
     (let author_username = (case authors (author_id t) of Some author \<Rightarrow> username author
                             | None \<Rightarrow> ''unknown'');
          m = public_metrics t in
      ''New mention from @'' @ author_username @ ''!'' @ [newline]
      @ ''Content: '' @ take 100 (tweet_text t) @ ''...'' @ [newline]
      @ ''Replies: '' @ str_int (reply_count m) @ [newline]
      @ ''Retweets: '' @ str_int (retweet_count m) @ [newline]
      @ ''Likes: '' @ str_int (like_count m) @ [newline]
      @ ''URL: '' @ tweet_url author_username (str_int (tweet_id t)))"

text \<open>
  The body of \<^verbatim>\<open>for tweet in mentions.data\<close>, on the system and the flag
  \<^verbatim>\<open>new_mentions_found\<close>. The age of the mention is the \<^verbatim>\<open>float\<close>
  \<^verbatim>\<open>(now - tweet_time).total_seconds()\<close>, compared with the integer 86400.
\<close>

definition mention_step :: "env \<Rightarrow> (int \<Rightarrow> user option) \<Rightarrow> tweet \<Rightarrow> sys \<times> bool \<Rightarrow> sys \<times> bool" where
  "mention_step E authors t st =
     (case st of (w, new_mentions_found) \<Rightarrow>
        if str_int (tweet_id t) \<in> processed_mentions (bot w) then (w, new_mentions_found)
        else
          (let w1 = w\<lparr> bot := (bot w)\<lparr> processed_mentions :=
                               insert (str_int (tweet_id t)) (processed_mentions (bot w)) \<rparr> \<rparr>
           in if total_seconds (clock w1 - created_at t) > 86400 then (w1, True)
              else (notify E (mention_message authors t) w1, True)))"

fun mentions_loop :: "env \<Rightarrow> (int \<Rightarrow> user option) \<Rightarrow> tweet list \<Rightarrow> sys \<times> bool \<Rightarrow> sys \<times> bool" where
  "mentions_loop E authors [] st = st"
| "mentions_loop E authors (t # ts) st = mentions_loop E authors ts (mention_step E authors t st)"

text \<open>
  \<^verbatim>\<open>set(list(bot_state["processed_mentions"])[-50:])\<close> when the set has more than
  100 elements.
\<close>

definition evict_mentions :: "env \<Rightarrow> string set \<Rightarrow> string set" where
  "evict_mentions E P =
     (if card P > 100 then set (drop (length (set_list E P) - 50) (set_list E P)) else P)"

definition check_mentions :: "env \<Rightarrow> api \<Rightarrow> write_fault \<Rightarrow> sys \<Rightarrow> py_error + sys" where
  "check_mentions E A fault w =
     (case should_check E ''mentions'' 45 (clock w) (bot w) of
        Inl e \<Rightarrow> Inl e
      | Inr (proceed, s1) \<Rightarrow>
          if \<not> proceed then Inr (w\<lparr> bot := s1 \<rparr>)
          else
            (case safe_api_call (get_users_mentions A) (w\<lparr> bot := s1 \<rparr>) of
               (None, w2) \<Rightarrow> Inr w2
             | (Some [], w2) \<Rightarrow> Inr w2
             | (Some (m # ms), w2) \<Rightarrow>
                 (let author_ids = map author_id (m # ms) in
                  case safe_api_call (get_users A author_ids) w2 of
                    (authors, w3) \<Rightarrow>
                      (case mentions_loop E (author_map authors) (m # ms) (w3, False) of
                         (w4, new_mentions_found) \<Rightarrow>
                           if new_mentions_found then
                             Inr (persist E fault
                                   (w4\<lparr> bot := (bot w4)\<lparr> processed_mentions :=
                                           evict_mentions E (processed_mentions (bot w4)) \<rparr> \<rparr>))
                           else Inr w4))))"

subsection \<open>Engagement detector\<close>

definition change_text :: "int \<Rightarrow> int \<Rightarrow> int \<Rightarrow> string list" where
  "change_text like_diff rt_diff reply_diff =
     (if like_diff \<ge> 10 then [''+'' @ str_int like_diff @ '' likes''] else [])
     @ (if rt_diff \<ge> 5 then [''+'' @ str_int rt_diff @ '' retweets''] else [])
     @ (if reply_diff \<ge> 3 then [''+'' @ str_int reply_diff @ '' replies''] else [])"

definition engagement_message :: "env \<Rightarrow> tweet \<Rightarrow> string list \<Rightarrow> string" where
  "engagement_message E t changes =
     (let m = public_metrics t in
      ''Engagement update on tweet!'' @ [newline]
      @ ''Content: '' @ take 100 (tweet_text t) @ ''...'' @ [newline]
      @ join '', '' changes @ [newline]
      @ ''Current totals: '' @ str_int (reply_count m) @ '' replies, ''
      @ str_int (retweet_count m) @ '' retweets, '' @ str_int (like_count m) @ '' likes'' @ [newline]
      @ ''URL: '' @ tweet_url (twitter_username E) (str_int (tweet_id t)))"

definition store_metrics :: "string \<Rightarrow> metrics \<Rightarrow> sys \<Rightarrow> sys" where
  "store_metrics ident m w =
     w\<lparr> bot := (bot w)\<lparr> tweet_metrics := AList.update ident m (tweet_metrics (bot w)) \<rparr> \<rparr>"

text \<open>
  The body of \<^verbatim>\<open>for tweet in tweets.data\<close>, on the system and the flag
  \<^verbatim>\<open>engagement_updates\<close>.
\<close>

definition engagement_step :: "env \<Rightarrow> tweet \<Rightarrow> sys \<times> bool \<Rightarrow> sys \<times> bool" where
  "engagement_step E t st =
     (case st of (w, engagement_updates) \<Rightarrow>
        (let ident = str_int (tweet_id t);
             m = public_metrics t
         in case map_of (tweet_metrics (bot w)) ident of
              None \<Rightarrow> (store_metrics ident m w, True)
            | Some prev \<Rightarrow>
                (let like_diff = like_count m - like_count prev;
                     rt_diff = retweet_count m - retweet_count prev;
                     reply_diff = reply_count m - reply_count prev;
                     significant_change = (like_diff \<ge> 10 \<or> rt_diff \<ge> 5 \<or> reply_diff \<ge> 3);
                     w1 = (if significant_change
                           then notify E (engagement_message E t
                                            (change_text like_diff rt_diff reply_diff)) w
                           else w)
                 in (store_metrics ident m w1, True))))"

fun engagement_loop :: "env \<Rightarrow> tweet list \<Rightarrow> sys \<times> bool \<Rightarrow> sys \<times> bool" where
  "engagement_loop E [] st = st"
| "engagement_loop E (t # ts) st = engagement_loop E ts (engagement_step E t st)"

text \<open>
  The dictionary rebuilt from \<^verbatim>\<open>sorted(keys, reverse=True)[:10]\<close> when more than 10
  posts are tracked. The keys are strings: \<^verbatim>\<open>sorted\<close> compares them character by
  character.
\<close>

definition evict_metrics :: "(string \<times> metrics) list \<Rightarrow> (string \<times> metrics) list" where
  "evict_metrics tm =
     (if length tm > 10 then
        (let sorted_ids = rev (sort (map fst tm))
         in List.map_filter (\<lambda>k. map_option (Pair k) (map_of tm k)) (take 10 sorted_ids))
      else tm)"

definition check_tweet_engagement :: "env \<Rightarrow> api \<Rightarrow> write_fault \<Rightarrow> sys \<Rightarrow> py_error + sys" where
  "check_tweet_engagement E A fault w =
     (case should_check E ''engagement'' 120 (clock w) (bot w) of
        Inl e \<Rightarrow> Inl e
      | Inr (proceed, s1) \<Rightarrow>
          if \<not> proceed then Inr (w\<lparr> bot := s1 \<rparr>)
          else if last_tweet_id s1 = None then Inr (w\<lparr> bot := s1 \<rparr>)
          else
            (case safe_api_call (get_users_tweets A) (w\<lparr> bot := s1 \<rparr>) of
               (None, w2) \<Rightarrow> Inr w2
             | (Some [], w2) \<Rightarrow> Inr w2
             | (Some (t # ts), w2) \<Rightarrow>
                 (case engagement_loop E (t # ts) (w2, False) of
                    (w3, engagement_updates) \<Rightarrow>
                      if engagement_updates then
                        Inr (persist E fault
                              (w3\<lparr> bot := (bot w3)\<lparr> tweet_metrics :=
                                      evict_metrics (tweet_metrics (bot w3)) \<rparr> \<rparr>))
                      else Inr w3)))"

subsection \<open>Notions used in the statements\<close>

text \<open>What a detector leaves in memory: its error or, of the system, everything but the file.\<close>

definition in_memory :: "py_error + sys \<Rightarrow> py_error + bot_state \<times> datetime \<times> int list" where
  "in_memory r = map_sum id (\<lambda>w. (bot w, clock w, slept w)) r"

text \<open>
  The mentions of a fetched list that the loop meets as new: those whose id is neither
  in the set when the loop starts nor carried by an earlier mention of the list.
\<close>

fun unseen :: "string set \<Rightarrow> tweet list \<Rightarrow> tweet list" where
  "unseen P [] = []"
| "unseen P (t # ts) =
     (if str_int (tweet_id t) \<in> P then unseen P ts
      else t # unseen (insert (str_int (tweet_id t)) P) ts)"

subsection \<open>Sample inputs\<close>

text \<open>
  A concrete environment to run the model on. Timestamps are written as the decimal
  number of microseconds (the model never looks inside the text of a timestamp), a
  number that is no datetime is rejected, a trailing \<open>Z\<close> marks a timestamp with a UTC
  offset, and a set is enumerated in ascending order of its strings.
\<close>

fun read_digits :: "string \<Rightarrow> nat \<Rightarrow> nat option" where
  "read_digits [] acc = Some acc"
| "read_digits (c # cs) acc =
     (if c \<in> set ''0123456789'' then read_digits cs (10 * acc + (of_char c - 48)) else None)"

definition test_fromisoformat :: "string \<Rightarrow> parsed" where
  "test_fromisoformat t =
     (if t = [] then Unparseable
      else if last t = CHR ''Z'' then
        (case read_digits (butlast t) 0 of None \<Rightarrow> Unparseable | Some n \<Rightarrow> Aware)
      else (case read_digits t 0 of
              None \<Rightarrow> Unparseable
            | Some n \<Rightarrow> if valid_datetime (int n) then Naive (int n) else Unparseable))"

definition test_env :: env where
  "test_env = \<lparr> dt_str = str_int, strftime = str_int, fromisoformat = test_fromisoformat,
                 set_list = sorted_list_of_set, twitter_username = ''someone'' \<rparr>"

definition idle_bot :: bot_state where
  "idle_bot = \<lparr> user_id = Some 7, last_follower_count = 0, last_tweet_id = None,
      processed_mentions = {}, tweet_metrics = [], notifications = [], last_check_time = [] \<rparr>"

definition idle_sys :: sys where
  "idle_sys = \<lparr> bot = idle_bot, clock = 0, slept = [], state_file = Missing \<rparr>"

text \<open>An operation that is rate-limited twice and then answers.\<close>

definition limited_twice :: "nat \<Rightarrow> string outcome" where
  "limited_twice n = (if n < 2 then TooManyRequests else Returned ''ok'')"

text \<open>A state after one follower check, and a system tracking the metrics of post 41.\<close>

definition checked_bot :: bot_state where
  "checked_bot = idle_bot\<lparr> last_follower_count := 10, processed_mentions := {''11'', ''12''},
      last_check_time := [(''followers'', DT 5)] \<rparr>"

definition tracked_sys :: sys where
  "tracked_sys = idle_sys\<lparr> bot := idle_bot\<lparr> last_tweet_id := Some 41,
      tweet_metrics := [(''41'', \<lparr> reply_count = 1, retweet_count = 2, like_count = 30, quote_count = 0 \<rparr>)] \<rparr> \<rparr>"

definition tweet_41 :: "int \<Rightarrow> int \<Rightarrow> int \<Rightarrow> tweet" where
  "tweet_41 replies retweets likes =
     \<lparr> tweet_id = 41, tweet_text = ''hello'', created_at = 0, author_id = 7,
       public_metrics = \<lparr> reply_count = replies, retweet_count = retweets, like_count = likes,
                          quote_count = 0 \<rparr> \<rparr>"

text \<open>
  The API when nothing works: the user lookups are rate-limited and the post lookup fails
  on every attempt, the mention lookup answers with no data.
\<close>

definition down_api :: api where
  "down_api = \<lparr> get_user = (\<lambda>n. TooManyRequests),
                 get_users_tweets = (\<lambda>n. OtherException),
                 get_users_mentions = (\<lambda>n. Returned []),
                 get_users = (\<lambda>ids n. TooManyRequests) \<rparr>"

text \<open>
  A mention with id 100, and a system that has already processed the hundred mentions
  200 to 299.
\<close>

definition mention_100 :: "datetime \<Rightarrow> tweet" where
  "mention_100 created =
     \<lparr> tweet_id = 100, tweet_text = ''hi @someone'', created_at = created, author_id = 9,
       public_metrics = \<lparr> reply_count = 0, retweet_count = 0, like_count = 0, quote_count = 0 \<rparr> \<rparr>"

definition seen_ids :: "string list" where
  "seen_ids = map (\<lambda>n. str_int (int n)) [200..<300]"

definition full_sys :: sys where
  "full_sys = idle_sys\<lparr> bot := idle_bot\<lparr> processed_mentions := set seen_ids \<rparr> \<rparr>"

definition mention_api :: "tweet \<Rightarrow> api" where
  "mention_api t = \<lparr> get_user = (\<lambda>n. TooManyRequests),
                     get_users_tweets = (\<lambda>n. TooManyRequests),
                     get_users_mentions = (\<lambda>n. Returned [t]),
                     get_users = (\<lambda>ids n. Returned []) \<rparr>"

text \<open>
  The mention numbered \<open>i\<close>, and what becomes of it once its id has been seen. The
  mention detector runs on the system above and fetches the new mention 100 (the run ends
  with the eviction); it runs again 45 minutes later and fetches the mention \<open>i\<close>. The
  mention is notified again when the second run appends its notification.
\<close>

definition mention_numbered :: "int \<Rightarrow> tweet" where
  "mention_numbered i = (mention_100 0)\<lparr> tweet_id := i \<rparr>"

definition renotified :: "env \<Rightarrow> int \<Rightarrow> bool" where
  "renotified E i =
     (case check_mentions E (mention_api (mention_100 0)) No_fault full_sys of
        Inl e \<Rightarrow> False
      | Inr w1 \<Rightarrow>
          (case check_mentions E (mention_api (mention_numbered i)) No_fault
                  (w1\<lparr> clock := minutes 45 \<rparr>) of
             Inl e \<Rightarrow> False
           | Inr w2 \<Rightarrow>
               notifications (bot w2) =
                 notifications (bot w1) @
                   [log_entry E (minutes 45)
                      (mention_message (author_map (Some [])) (mention_numbered i))]))"

text \<open>
  A system tracking ten posts whose ids straddle the step from 18 to 19 digits, and the
  API returning one newer post.
\<close>

definition quiet :: metrics where
  "quiet = \<lparr> reply_count = 0, retweet_count = 0, like_count = 0, quote_count = 0 \<rparr>"

definition old_post_ids :: "int list" where
  "old_post_ids =
     [999999999999999991, 999999999999999992, 999999999999999993, 999999999999999994,
      999999999999999995, 999999999999999996, 999999999999999997, 999999999999999998,
      999999999999999999, 1000000000000000000]"

definition posts_sys :: sys where
  "posts_sys = idle_sys\<lparr> bot := idle_bot\<lparr> last_tweet_id := Some 1000000000000000000,
      tweet_metrics := map (\<lambda>i. (str_int i, quiet)) old_post_ids \<rparr> \<rparr>"

definition new_post :: tweet where
  "new_post = \<lparr> tweet_id = 1000000000000000001, tweet_text = ''news'', created_at = 0,
                 author_id = 7, public_metrics = quiet \<rparr>"

definition posts_api :: "tweet list \<Rightarrow> api" where
  "posts_api ts = \<lparr> get_user = (\<lambda>n. TooManyRequests),
                     get_users_tweets = (\<lambda>n. Returned ts),
                     get_users_mentions = (\<lambda>n. Returned []),
                     get_users = (\<lambda>ids n. Returned []) \<rparr>"

section \<open>Properties\<close>

subsection \<open>Floating-point numbers\<close>

lemma rne_of_int: "rne (of_int n) = n"
  by (simp add: rne_def)

lemma rne_le: "y \<le> of_int N \<Longrightarrow> rne y \<le> N"
proof -
  assume a: "y \<le> of_int N"
  have f: "\<lfloor>y\<rfloor> \<le> N" using a by (simp add: floor_le_iff)
  show ?thesis
  proof (cases "\<lfloor>y\<rfloor> = N")
    case True
    then have "y = of_int N" using a of_int_floor_le[of y] by linarith
    then show ?thesis by (simp add: rne_of_int)
  next
    case False
    with f have "\<lfloor>y\<rfloor> + 1 \<le> N" by simp
    then show ?thesis by (simp add: rne_def Let_def)
  qed
qed

lemma rne_ge: "of_int N \<le> y \<Longrightarrow> N \<le> rne y"
proof -
  assume "of_int N \<le> y"
  then have "N \<le> \<lfloor>y\<rfloor>" by (simp add: le_floor_iff)
  then show ?thesis by (simp add: rne_def Let_def)
qed

lemma pow2_pos: "0 < (2::rat) powi k"
  by (simp add: zero_less_power_int)

lemma pow2_add: "(2::rat) powi (a + b) = 2 powi a * 2 powi b"
  by (simp add: power_int_add)

lemma pow2_nat: "(2::rat) powi (int a) = 2 ^ a"
  by simp

lemma pow2_mono: "a \<le> b \<Longrightarrow> (2::rat) powi a \<le> 2 powi b"
  by (simp add: power_int_increasing)

lemma pow2_less_imp: "(2::rat) powi a < 2 powi b \<Longrightarrow> a < b"
  using pow2_mono[of b a] by (cases "a < b") simp_all

lemma bit_length_bounds:
  "0 < n \<Longrightarrow> 2 ^ (bit_length n - 1) \<le> n \<and> n < 2 ^ bit_length n"
proof (induction n rule: bit_length.induct)
  case (1 n)
  show ?case
  proof (cases "n = 1")
    case True
    then show ?thesis by (simp add: bit_length.simps)
  next
    case False
    with 1(2) have h: "0 < n div 2" by simp
    have ih: "2 ^ (bit_length (n div 2) - 1) \<le> n div 2 \<and> n div 2 < 2 ^ bit_length (n div 2)"
      using 1(1) 1(2) h by simp
    have b: "bit_length n = Suc (bit_length (n div 2))" using 1(2) by (subst bit_length.simps) simp
    have pos: "0 < bit_length (n div 2)" using h by (subst bit_length.simps) simp
    then have sp: "(2::int) ^ bit_length (n div 2) = 2 * 2 ^ (bit_length (n div 2) - 1)"
      by (cases "bit_length (n div 2)") simp_all
    from ih sp show ?thesis unfolding b by simp linarith
  qed
qed

lemma bit_length_rat:
  assumes "0 < n"
  shows "(2::rat) powi (int (bit_length n) - 1) \<le> of_int n" and "of_int n < (2::rat) powi (int (bit_length n))"
proof -
  from bit_length_bounds[OF assms]
  have lo: "2 ^ (bit_length n - 1) \<le> n" and hi: "n < 2 ^ bit_length n" by simp_all
  have pos: "1 \<le> bit_length n" using assms by (subst bit_length.simps) simp
  have "(2::rat) powi (int (bit_length n) - 1) = of_int (2 ^ (bit_length n - 1))"
    using pos pow2_nat[of "bit_length n - 1"] by (simp add: of_nat_diff)
  also have "\<dots> \<le> of_int n" using lo by (simp only: of_int_le_iff)
  finally show "(2::rat) powi (int (bit_length n) - 1) \<le> of_int n" .
  have "(of_int n :: rat) < of_int (2 ^ bit_length n)" using hi by (simp only: of_int_less_iff)
  also have "\<dots> = 2 powi (int (bit_length n))" by simp
  finally show "of_int n < (2::rat) powi (int (bit_length n))" .
qed

lemma expo_bounds:
  assumes "0 < x"
  shows "2 powi expo x \<le> x" and "x < 2 powi (expo x + 1)"
proof -
  obtain n d where q: "quotient_of x = (n, d)" by (cases "quotient_of x") auto
  have d: "0 < d" using quotient_of_denom_pos[OF q] .
  have x: "x = of_int n / of_int d" using quotient_of_div[OF q] .
  have n: "0 < n" using assms d x by (simp add: zero_less_divide_iff)
  define a where "a = int (bit_length n)"
  define b where "b = int (bit_length d)"
  have n_lo: "(2::rat) powi (a - 1) \<le> of_int n" and n_hi: "of_int n < (2::rat) powi a"
    unfolding a_def using bit_length_rat[OF n] by simp_all
  have d_lo: "(2::rat) powi (b - 1) \<le> of_int d" and d_hi: "of_int d < (2::rat) powi b"
    unfolding b_def using bit_length_rat[OF d] by simp_all
  have xd: "x * of_int d = of_int n" using x d by simp
  have hi: "x < 2 powi (a - b + 1)"
  proof -
    have "x * 2 powi (b - 1) \<le> x * of_int d"
      using d_lo assms by (simp add: mult_left_mono)
    also have "\<dots> < 2 powi a" using xd n_hi by simp
    also have "\<dots> = 2 powi (a - b + 1) * 2 powi (b - 1)"
      by (simp flip: pow2_add)
    finally show ?thesis using pow2_pos[of "b - 1"] by simp
  qed
  have lo: "2 powi (a - b - 1) < x"
  proof -
    have "(2::rat) powi (a - b - 1) * 2 powi b = 2 powi (a - 1)"
      by (simp flip: pow2_add)
    also have "\<dots> \<le> x * of_int d" using xd n_lo by simp
    also have "\<dots> < x * 2 powi b" using d_hi assms by (simp add: mult_strict_left_mono)
    finally show ?thesis using pow2_pos[of "b"] by simp
  qed
  have e: "expo x = (if 2 powi (a - b) \<le> x then a - b else a - b - 1)"
    by (simp add: expo_def q a_def b_def Let_def)
  show "2 powi expo x \<le> x" using lo by (simp add: e)
  show "x < 2 powi (expo x + 1)" using hi by (auto simp: e not_le)
qed


lemma scaled_int:
  assumes "0 \<le> j"
  shows "of_int n * (2::rat) powi j = of_int (n * 2 ^ nat j)"
  using assms by (simp add: power_int_def)

text \<open>A value with a 53-bit significand, brought to the scale of a binade it reaches, is an integer.\<close>

lemma significand_int:
  assumes n: "\<bar>n\<bar> < 2 ^ 53" and reach: "(2::rat) powi e \<le> \<bar>of_int n * 2 powi k\<bar>"
  shows "of_int n * (2::rat) powi k * 2 powi (52 - e) = of_int (n * 2 ^ nat (k + 52 - e))"
    and "0 \<le> k + 52 - e"
proof -
  have "\<bar>of_int n * (2::rat) powi k\<bar> = of_int \<bar>n\<bar> * 2 powi k"
    using pow2_pos[of k] by (simp add: abs_mult)
  also have "\<dots> < of_int (2 ^ 53) * 2 powi k"
    using n pow2_pos[of k] by (intro mult_strict_right_mono) (simp_all only: of_int_less_iff)
  also have "\<dots> = 2 powi (53 + k)"
    by (simp add: pow2_add)
  finally have "(2::rat) powi e < 2 powi (53 + k)" using reach by simp
  then have "e < 53 + k" by (rule pow2_less_imp)
  then show j: "0 \<le> k + 52 - e" by simp
  have "of_int n * (2::rat) powi k * 2 powi (52 - e) = of_int n * 2 powi (k + 52 - e)"
    using pow2_add[of k "52 - e"] by (simp only: add_diff_eq mult.assoc)
  then show "of_int n * (2::rat) powi k * 2 powi (52 - e) = of_int (n * 2 ^ nat (k + 52 - e))"
    using scaled_int[OF j, of n] by simp
qed

lemma double_exact:
  assumes "\<bar>n\<bar> < 2 ^ 53"
  shows "double (of_int n * 2 powi k) = of_int n * 2 powi k"
proof (cases "n = 0")
  case True
  then show ?thesis by (simp add: double_def)
next
  case False
  define x :: rat where "x = of_int n * 2 powi k"
  define e where "e = expo \<bar>x\<bar>"
  have x0: "x \<noteq> 0" using False pow2_pos[of k] by (simp add: x_def)
  then have "0 < \<bar>x\<bar>" by simp
  from expo_bounds(1)[OF this] have "(2::rat) powi e \<le> \<bar>of_int n * 2 powi k\<bar>"
    by (simp add: e_def x_def)
  from significand_int[OF assms this]
  have N: "x * 2 powi (52 - e) = of_int (n * 2 ^ nat (k + 52 - e))" and j: "0 \<le> k + 52 - e"
    by (simp_all add: x_def)
  have "double x = of_int (n * 2 ^ nat (k + 52 - e)) * 2 powi (e - 52)"
    using x0 unfolding double_def e_def[symmetric] N rne_of_int by (simp only: if_False)
  also have "\<dots> = x * 2 powi (52 - e) * 2 powi (e - 52)" by (simp only: N)
  also have "\<dots> = x" by (simp add: mult.assoc pow2_add[symmetric])
  finally show ?thesis by (simp add: x_def)
qed

lemma double_of_int: "\<bar>n\<bar> < 2 ^ 53 \<Longrightarrow> double (of_int n) = of_int n"
  using double_exact[of n 0] by simp

lemma double_nonpos: "x \<le> 0 \<Longrightarrow> double x \<le> 0"
proof -
  assume x: "x \<le> 0"
  have "x * 2 powi (52 - expo \<bar>x\<bar>) \<le> of_int 0"
    using x pow2_pos[of "52 - expo \<bar>x\<bar>"] by (simp add: mult_le_0_iff)
  then have "rne (x * 2 powi (52 - expo \<bar>x\<bar>)) \<le> 0" by (rule rne_le)
  then show ?thesis using pow2_pos[of "expo \<bar>x\<bar> - 52"] by (simp add: double_def mult_le_0_iff)
qed

text \<open>Rounding does not cross a value with a 53-bit significand.\<close>

lemma double_le:
  assumes x: "0 < x" and le: "x \<le> of_int n * 2 powi k" and n: "\<bar>n\<bar> < 2 ^ 53"
  shows "double x \<le> of_int n * 2 powi k"
proof -
  define e where "e = expo \<bar>x\<bar>"
  have e: "e = expo x" using x by (simp add: e_def)
  have "0 < of_int n * (2::rat) powi k" using x le by simp
  then have "(2::rat) powi e \<le> \<bar>of_int n * 2 powi k\<bar>"
    using expo_bounds(1)[OF x] le by (simp add: e)
  from significand_int[OF n this]
  have N: "of_int n * (2::rat) powi k * 2 powi (52 - e) = of_int (n * 2 ^ nat (k + 52 - e))" by simp
  have "x * 2 powi (52 - e) \<le> of_int n * 2 powi k * 2 powi (52 - e)"
    using le pow2_pos[of "52 - e"] by (simp add: mult_right_mono)
  then have "rne (x * 2 powi (52 - e)) \<le> n * 2 ^ nat (k + 52 - e)"
    unfolding N by (rule rne_le)
  then have "(of_int (rne (x * 2 powi (52 - e))) :: rat) \<le> of_int (n * 2 ^ nat (k + 52 - e))"
    by (simp only: of_int_le_iff)
  then have "of_int (rne (x * 2 powi (52 - e))) * 2 powi (e - 52)
      \<le> of_int (n * 2 ^ nat (k + 52 - e)) * (2::rat) powi (e - 52)"
    using pow2_pos[of "e - 52"] by (simp add: mult_right_mono)
  also have "\<dots> = of_int n * 2 powi k * 2 powi (52 - e) * 2 powi (e - 52)" by (simp only: N)
  also have "\<dots> = of_int n * 2 powi k" by (simp add: mult.assoc pow2_add[symmetric])
  finally show ?thesis using x by (simp add: double_def e_def)
qed

lemma double_ge:
  assumes p: "0 < of_int n * (2::rat) powi k" and le: "of_int n * 2 powi k \<le> x" and n: "\<bar>n\<bar> < 2 ^ 53"
  shows "of_int n * 2 powi k \<le> double x"
proof -
  have x: "0 < x" using p le by simp
  define e where "e = expo \<bar>x\<bar>"
  have e: "e = expo x" using x by (simp add: e_def)
  have dx: "double x = of_int (rne (x * 2 powi (52 - e))) * 2 powi (e - 52)"
    using x by (simp add: double_def e_def)
  show ?thesis
  proof (cases "(2::rat) powi e \<le> of_int n * 2 powi k")
    case True
    then have "(2::rat) powi e \<le> \<bar>of_int n * 2 powi k\<bar>" by simp
    from significand_int[OF n this]
    have N: "of_int n * (2::rat) powi k * 2 powi (52 - e) = of_int (n * 2 ^ nat (k + 52 - e))" by simp
    have "of_int n * 2 powi k * 2 powi (52 - e) \<le> x * 2 powi (52 - e)"
      using le pow2_pos[of "52 - e"] by (simp add: mult_right_mono)
    then have "n * 2 ^ nat (k + 52 - e) \<le> rne (x * 2 powi (52 - e))"
      unfolding N by (rule rne_ge)
    then have "(of_int (n * 2 ^ nat (k + 52 - e)) :: rat) \<le> of_int (rne (x * 2 powi (52 - e)))"
      by (simp only: of_int_le_iff)
    then have scaled: "of_int (n * 2 ^ nat (k + 52 - e)) * (2::rat) powi (e - 52)
        \<le> of_int (rne (x * 2 powi (52 - e))) * 2 powi (e - 52)"
      using pow2_pos[of "e - 52"] by (simp add: mult_right_mono)
    have unscaled: "of_int (n * 2 ^ nat (k + 52 - e)) * (2::rat) powi (e - 52) = of_int n * 2 powi k"
    proof -
      have "of_int (n * 2 ^ nat (k + 52 - e)) * (2::rat) powi (e - 52)
          = of_int n * 2 powi k * 2 powi (52 - e) * 2 powi (e - 52)" by (simp only: N)
      also have "\<dots> = of_int n * 2 powi k" by (simp add: mult.assoc pow2_add[symmetric])
      finally show ?thesis .
    qed
    show ?thesis using scaled unfolding dx unscaled .
  next
    case False
    have "(2::rat) powi e * 2 powi (52 - e) \<le> x * 2 powi (52 - e)"
      using expo_bounds(1)[OF x] pow2_pos[of "52 - e"] by (simp add: e mult_right_mono)
    moreover have "(2::rat) powi e * 2 powi (52 - e) = of_int (2 ^ 52)"
      by (simp add: pow2_add[symmetric])
    ultimately have "of_int (2 ^ 52) \<le> x * 2 powi (52 - e)" by simp
    then have "2 ^ 52 \<le> rne (x * 2 powi (52 - e))" by (rule rne_ge)
    then have "(of_int (2 ^ 52) :: rat) \<le> of_int (rne (x * 2 powi (52 - e)))"
      by (simp only: of_int_le_iff)
    then have "of_int (2 ^ 52) * (2::rat) powi (e - 52) \<le> double x"
      unfolding dx using pow2_pos[of "e - 52"] by (simp add: mult_right_mono)
    moreover have "of_int (2 ^ 52) * (2::rat) powi (e - 52) = 2 powi e"
    proof -
      have "of_int (2 ^ 52) * (2::rat) powi (e - 52) = 2 powi 52 * 2 powi (e - 52)" by simp
      also have "\<dots> = 2 powi e" by (simp only: pow2_add[symmetric]) simp
      finally show ?thesis .
    qed
    ultimately show ?thesis using False by simp
  qed
qed

lemma double_le_dyadic:
  assumes le: "x \<le> of_int n * 2 powi k" and p: "0 \<le> of_int n * (2::rat) powi k" and n: "\<bar>n\<bar> < 2 ^ 53"
  shows "double x \<le> of_int n * 2 powi k"
proof (cases "0 < x")
  case True
  then show ?thesis using le n by (rule double_le)
next
  case False
  then have "double x \<le> 0" by (simp add: double_nonpos)
  with p show ?thesis by simp
qed

text \<open>
  The quotient \<^verbatim>\<open>time_passed.total_seconds() / 60\<close> reaches an interval of up to
  100000000 minutes exactly when the microseconds of \<^verbatim>\<open>time_passed\<close> do.
\<close>

lemma interval_reached:
  assumes t: "minutes m \<le> t" and m: "0 < m" "m \<le> 100000000"
  shows "of_int m \<le> double (total_seconds t / 60)"
proof -
  have "(of_int (60 * m) :: rat) * 1000000 = of_int (minutes m)" by (simp add: minutes_def)
  also have "\<dots> \<le> of_int t" using t by (simp only: of_int_le_iff)
  finally have "of_int (60 * m) * 2 powi 0 \<le> (of_int t :: rat) / 1000000" by (simp add: pos_le_divide_eq)
  moreover have "0 < of_int (60 * m) * (2::rat) powi 0" using m by simp
  moreover have "\<bar>60 * m\<bar> < 2 ^ 53" using m by simp
  ultimately have "of_int (60 * m) * 2 powi 0 \<le> total_seconds t"
    unfolding total_seconds_def by (intro double_ge)
  then have "of_int m * 2 powi 0 \<le> total_seconds t / 60" by simp
  moreover have "0 < of_int m * (2::rat) powi 0" using m by simp
  moreover have "\<bar>m\<bar> < 2 ^ 53" using m by simp
  ultimately have "of_int m * 2 powi 0 \<le> double (total_seconds t / 60)"
    by (intro double_ge)
  then show ?thesis by simp
qed

lemma interval_not_reached:
  assumes t: "t < minutes m" and m: "0 < m" "m \<le> 100000000"
  shows "double (total_seconds t / 60) < of_int m"
proof -
  define p :: rat where "p = of_int (60 * m * 1048576 - 1) * 2 powi (- 20)"
  define q :: rat where "q = of_int (m * 67108864 - 1) * 2 powi (- 26)"
  have p: "p = of_int (60 * m) - 1 / 1048576" by (simp add: p_def power_int_minus field_simps)
  have q: "q = of_int m - 1 / 67108864" by (simp add: q_def power_int_minus field_simps)
  have "t \<le> minutes m - 1" using t by simp
  then have "(of_int t :: rat) \<le> of_int (minutes m - 1)" by (simp only: of_int_le_iff)
  then have "(of_int t :: rat) / 1000000 \<le> of_int (minutes m - 1) / 1000000"
    by (simp add: divide_right_mono)
  also have "\<dots> = of_int (60 * m) - 1 / 1000000" by (simp add: minutes_def field_simps)
  also have "\<dots> \<le> p" by (simp add: p)
  finally have "(of_int t :: rat) / 1000000 \<le> of_int (60 * m * 1048576 - 1) * 2 powi (- 20)"
    by (simp only: p_def)
  moreover have "0 \<le> of_int (60 * m * 1048576 - 1) * (2::rat) powi (- 20)"
    using m pow2_pos[of "- 20"] by (intro mult_nonneg_nonneg) simp_all
  moreover have "\<bar>60 * m * 1048576 - 1\<bar> < 2 ^ 53" using m by simp
  ultimately have "total_seconds t \<le> p"
    unfolding total_seconds_def p_def by (intro double_le_dyadic)
  then have "total_seconds t / 60 \<le> p / 60" by (simp add: divide_right_mono)
  also have "\<dots> \<le> q" by (simp add: p q field_simps)
  finally have "total_seconds t / 60 \<le> of_int (m * 67108864 - 1) * 2 powi (- 26)"
    by (simp only: q_def)
  moreover have "0 \<le> of_int (m * 67108864 - 1) * (2::rat) powi (- 26)"
    using m pow2_pos[of "- 26"] by (intro mult_nonneg_nonneg) simp_all
  moreover have "\<bar>m * 67108864 - 1\<bar> < 2 ^ 53" using m by simp
  ultimately have "double (total_seconds t / 60) \<le> q"
    unfolding q_def by (intro double_le_dyadic)
  then show ?thesis by (simp add: q)
qed

lemma interval_agrees:
  assumes "0 < m" "m \<le> 100000000"
  shows "(of_int m \<le> double (total_seconds t / 60)) = (minutes m \<le> t)"
  using interval_reached[OF _ assms, of t] interval_not_reached[OF _ assms, of t]
  by (cases "minutes m \<le> t") simp_all

lemma interval_agrees_numeral:
  assumes "numeral k \<le> (100000000::int)"
  shows "(numeral k \<le> double (total_seconds t / 60)) = (minutes (numeral k) \<le> t)"
  using interval_agrees[of "numeral k" t] assms by simp

text \<open>The test of the age of a mention decides as the exact comparison does, for every age.\<close>

lemma day_agrees: "(86400 < total_seconds t) = (seconds 86400 < t)"
proof (cases "seconds 86400 < t")
  case True
  define q :: rat where "q = of_int (86400 * 68719476736 + 1) * 2 powi (- 36)"
  have q: "q = 86400 + 1 / 68719476736" by (simp add: q_def power_int_minus field_simps)
  have "seconds 86400 + 1 \<le> t" using True by simp
  then have "(of_int (seconds 86400 + 1) :: rat) \<le> of_int t" by (simp only: of_int_le_iff)
  then have "(of_int (seconds 86400 + 1) :: rat) / 1000000 \<le> of_int t / 1000000"
    by (simp add: divide_right_mono)
  moreover have "q \<le> of_int (seconds 86400 + 1) / 1000000" by (simp add: q seconds_def)
  ultimately have "of_int (86400 * 68719476736 + 1) * 2 powi (- 36) \<le> (of_int t :: rat) / 1000000"
    by (simp add: q_def)
  moreover have "0 < of_int (86400 * 68719476736 + 1) * (2::rat) powi (- 36)"
    using pow2_pos[of "- 36"] by (intro mult_pos_pos) simp_all
  moreover have "\<bar>86400 * 68719476736 + 1 :: int\<bar> < 2 ^ 53" by simp
  ultimately have "q \<le> total_seconds t"
    unfolding total_seconds_def q_def by (intro double_ge)
  then show ?thesis using True by (simp add: q)
next
  case False
  then have "(of_int t :: rat) \<le> of_int (seconds 86400)" by (simp only: of_int_le_iff not_less)
  then have "(of_int t :: rat) / 1000000 \<le> of_int 86400 * 2 powi 0" by (simp add: seconds_def)
  moreover have "0 \<le> of_int 86400 * (2::rat) powi 0" by simp
  moreover have "\<bar>86400 :: int\<bar> < 2 ^ 53" by simp
  ultimately have "total_seconds t \<le> of_int 86400 * 2 powi 0"
    unfolding total_seconds_def by (intro double_le_dyadic)
  then show ?thesis using False by simp
qed

lemma expo_unique:
  assumes "2 powi e \<le> x" "x < 2 powi (e + 1)"
  shows "expo x = e"
proof -
  have x: "0 < x" using assms(1) pow2_pos[of e] by linarith
  from expo_bounds[OF x] have b: "2 powi expo x \<le> x" "x < 2 powi (expo x + 1)" .
  have "(2::rat) powi e < 2 powi (expo x + 1)" using assms(1) b(2) by simp
  then have "e < expo x + 1" by (rule pow2_less_imp)
  moreover have "(2::rat) powi expo x < 2 powi (e + 1)" using assms(2) b(1) by simp
  then have "expo x < e + 1" by (rule pow2_less_imp)
  ultimately show ?thesis by simp
qed

lemma floor_numeral_div: "\<lfloor>numeral a / numeral b :: rat\<rfloor> = numeral a div numeral b"
  using floor_divide_of_int_eq[of "numeral a" "numeral b", where ?'a = rat] by simp

text \<open>
  Where the two part: 63839663999.999999 seconds is not a \<^verbatim>\<open>float\<close>, and the nearest
  one is 63839664000.
\<close>

lemma total_seconds_rounds_up: "total_seconds 63839663999999999 = 63839664000"
proof -
  have e: "expo (63839663999999999 / 1000000) = 35"
    by (rule expo_unique) (simp_all add: power_int_def)
  show ?thesis
    by (simp add: total_seconds_def double_def e rne_def Let_def power_int_minus floor_numeral_div)
qed

subsection \<open>The retrying call wrapper\<close>

lemma slept_fold_sleep: "slept (fold sleep ws w) = slept w @ ws"
  by (induction ws arbitrary: w) (simp_all add: sleep_def)

lemma clock_fold_sleep: "clock (fold sleep ws w) = clock w + seconds (sum_list ws)"
  by (induction ws arbitrary: w) (simp_all add: sleep_def seconds_def algebra_simps)

lemma bot_fold_sleep: "bot (fold sleep ws w) = bot w"
  by (induction ws arbitrary: w) (simp_all add: sleep_def)

lemma state_file_fold_sleep: "state_file (fold sleep ws w) = state_file w"
  by (induction ws arbitrary: w) (simp_all add: sleep_def)

text \<open>
  From attempt \<open>j\<close> on: when the attempts before attempt \<open>k\<close> are rate-limited and
  attempt \<open>k\<close> answers, the loop sleeps once per failed attempt and returns the answer.
\<close>

lemma safe_api_loop_rate_limited:
  assumes "k < max_retries" and "func k = Returned r"
  shows "j \<le> k \<Longrightarrow> (\<forall>i. j \<le> i \<and> i < k \<longrightarrow> func i = TooManyRequests) \<Longrightarrow>
         safe_api_loop func j w = (Some r, fold sleep (map (\<lambda>a. 60 * 2 ^ a) [Suc j..<Suc k]) w)"
proof (induction "k - j" arbitrary: j w)
  case 0
  then have "j = k" by simp
  with assms show ?case by (simp add: safe_api_loop.simps)
next
  case (Suc d)
  then have lt: "j < k" and rl: "func j = TooManyRequests" by auto
  from Suc.hyps(2) have d: "d = k - Suc j" by simp
  have rest: "safe_api_loop func (Suc j) (sleep (60 * 2 ^ Suc j) w) =
      (Some r, fold sleep (map (\<lambda>a. 60 * 2 ^ a) [Suc (Suc j)..<Suc k]) (sleep (60 * 2 ^ Suc j) w))"
    using Suc.hyps(1)[OF d, of "sleep (60 * 2 ^ Suc j) w"] lt Suc.prems(2) by auto
  have "[Suc j..<Suc k] = Suc j # [Suc (Suc j)..<Suc k]"
    using lt by (simp add: upt_conv_Cons)
  then show ?case
    using lt rl assms(1) rest by (subst safe_api_loop.simps) (simp add: Let_def)
qed

lemma safe_api_call_limited_twice:
  "safe_api_call limited_twice idle_sys =
     (Some ''ok'', idle_sys\<lparr> clock := seconds 360, slept := [120, 240] \<rparr>)"
  by (simp add: safe_api_call_def safe_api_loop.simps limited_twice_def max_retries_def
      sleep_def idle_sys_def seconds_def Let_def)

text \<open>
  Three rate-limited attempts: the loop sleeps after each of them, the third time too, and
  gives up.
\<close>

lemma safe_api_call_exhausted:
  assumes "\<forall>i<3. func i = TooManyRequests"
  shows "safe_api_call func w =
           (None, w\<lparr> clock := clock w + seconds 840, slept := slept w @ [120, 240, 480] \<rparr>)"
proof -
  have "func 0 = TooManyRequests" "func (Suc 0) = TooManyRequests"
    "func (Suc (Suc 0)) = TooManyRequests"
    using assms by (simp_all add: numeral_3_eq_3)
  then show ?thesis
    by (simp add: safe_api_call_def safe_api_loop.simps max_retries_def sleep_def seconds_def
        Let_def numeral_3_eq_3)
qed

text \<open>
  Claim C1, as the code has it. \<^verbatim>\<open>retry_count\<close> is incremented before the wait is
  computed, so the wait after the \<open>a\<close>-th failed attempt (\<open>a\<close> = 1, 2, 3) is
  \<open>60 * 2 ^ a\<close> seconds: 120 s before the second attempt, 240 s before the third. A call
  that is rate-limited on its first \<open>k < 3\<close> attempts and answers on the next one
  returns that answer after exactly these \<open>k\<close> sleeps; nothing else of the system changes.
\<close>

theorem safe_api_call_rate_limited:
  assumes "k < max_retries"
    and "\<forall>i<k. func i = TooManyRequests"
    and "func k = Returned r"
  shows "fst (safe_api_call func w) = Some r
       \<and> slept (snd (safe_api_call func w)) = slept w @ map (\<lambda>a. 60 * 2 ^ a) [1..<Suc k]
       \<and> clock (snd (safe_api_call func w)) = clock w + seconds (\<Sum>a\<leftarrow>[1..<Suc k]. 60 * 2 ^ a)
       \<and> bot (snd (safe_api_call func w)) = bot w
       \<and> state_file (snd (safe_api_call func w)) = state_file w"
proof -
  have "safe_api_loop func 0 w = (Some r, fold sleep (map (\<lambda>a. 60 * 2 ^ a) [Suc 0..<Suc k]) w)"
    by (rule safe_api_loop_rate_limited) (use assms in auto)
  then show ?thesis
    by (simp add: safe_api_call_def slept_fold_sleep clock_fold_sleep bot_fold_sleep
        state_file_fold_sleep)
qed

theorem safe_api_call_rate_limited_witness:
  "fst (safe_api_call limited_twice idle_sys) = Some ''ok''
   \<and> slept (snd (safe_api_call limited_twice idle_sys)) = [120, 240]"
proof -
  have two: "(2::nat) < max_retries" by (simp add: max_retries_def)
  have lim: "\<forall>i<2. limited_twice i = TooManyRequests" by (simp add: limited_twice_def)
  have ret: "limited_twice 2 = Returned ''ok''" by (simp add: limited_twice_def)
  have up: "[Suc 0..<3] = [1, 2]" by (simp add: upt_rec)
  show ?thesis
    using safe_api_call_rate_limited[OF two lim ret, of idle_sys]
    by (simp add: up idle_sys_def)
qed

text \<open>
  Claim C1 as stated fails: a call that is rate-limited twice and then answers has slept
  120 s and then 240 s, not 60 s and then 120 s.
\<close>

theorem safe_api_call_sleeps_counterexample:
  "slept (snd (safe_api_call limited_twice idle_sys)) = [120, 240]
   \<and> slept (snd (safe_api_call limited_twice idle_sys)) \<noteq> [60, 120]"
  by (simp add: safe_api_call_limited_twice)

subsection \<open>The scheduler gate\<close>

lemma should_check_datetime:
  "map_of (last_check_time s) check_type = Some (DT d) \<Longrightarrow>
   should_check E check_type m now s =
     (if of_int m \<le> double (total_seconds (now - d) / 60)
      then Inr (True, s\<lparr> last_check_time := AList.update check_type (DT now) (last_check_time s) \<rparr>)
      else Inr (False, s))"
  by (simp add: should_check_def Let_def)

lemma should_check_parsed_like_datetime:
  "map_of (last_check_time s) check_type = Some (TS t) \<Longrightarrow> fromisoformat E t = Naive d \<Longrightarrow>
   should_check E check_type m now s =
     (if of_int m \<le> double (total_seconds (now - d) / 60)
      then Inr (True, s\<lparr> last_check_time := AList.update check_type (DT now) (last_check_time s) \<rparr>)
      else Inr (False, s))"
  by (simp add: should_check_def Let_def)

text \<open>
  A stored string that parses to a datetime with a UTC offset is not covered by the
  \<^verbatim>\<open>except\<close> clause: the subtraction after it raises.
\<close>

lemma should_check_aware_raises:
  "map_of (last_check_time s) check_type = Some (TS t) \<Longrightarrow> fromisoformat E t = Aware \<Longrightarrow>
   should_check E check_type m now s = Inl TypeError"
  by (simp add: should_check_def)

text \<open>
  With an interval of up to 100000000 minutes (190 years) the gate opens exactly when the
  microseconds since the stored datetime reach the interval.
\<close>

lemma should_check_exact:
  assumes "map_of (last_check_time s) check_type = Some (DT d)" and "0 < m" and "m \<le> 100000000"
  shows "should_check E check_type m now s =
     (if minutes m \<le> now - d
      then Inr (True, s\<lparr> last_check_time := AList.update check_type (DT now) (last_check_time s) \<rparr>)
      else Inr (False, s))"
  by (simp add: should_check_datetime[OF assms(1)] interval_agrees[OF assms(2,3)])

text \<open>
  Beyond that bound the rounding shows. At an interval of 1063994400 minutes the gate
  opens one microsecond early: 63839663999.999999 seconds have passed, which
  \<^verbatim>\<open>total_seconds\<close> returns as 63839664000.0.
\<close>

lemma should_check_opens_early:
  "should_check E ''followers'' 1063994400 63839663999999999
     (idle_bot\<lparr> last_check_time := [(''followers'', DT 0)] \<rparr>) =
     Inr (True, idle_bot\<lparr> last_check_time := [(''followers'', DT 63839663999999999)] \<rparr>)
   \<and> 63839663999999999 - 0 < minutes 1063994400"
  using double_of_int[of 1063994400]
  by (simp add: should_check_def total_seconds_rounds_up minutes_def Let_def)

text \<open>
  Claim C5. For a check type with no stored timestamp and a positive minimum interval,
  \<^verbatim>\<open>should_check\<close> returns \<^verbatim>\<open>True\<close> and stores the current time; a second call at
  the same clock reading returns \<^verbatim>\<open>False\<close> and leaves the state as it is, and so does
  a call at any reading less than the interval later (less than 100000000 minutes later,
  when the interval is longer than that: up to there the floating-point quotient decides
  as the exact one does).
\<close>

theorem should_check_first_then_gated:
  assumes "map_of (last_check_time s) check_type = None" and "0 < m"
  shows "should_check E check_type m now s =
           Inr (True, s\<lparr> last_check_time := AList.update check_type (DT now) (last_check_time s) \<rparr>)
       \<and> should_check E check_type m now
           (s\<lparr> last_check_time := AList.update check_type (DT now) (last_check_time s) \<rparr>) =
           Inr (False, s\<lparr> last_check_time := AList.update check_type (DT now) (last_check_time s) \<rparr>)
       \<and> (\<forall>later. later - now < minutes (min m 100000000) \<longrightarrow>
            should_check E check_type m later
              (s\<lparr> last_check_time := AList.update check_type (DT now) (last_check_time s) \<rparr>) =
              Inr (False, s\<lparr> last_check_time := AList.update check_type (DT now) (last_check_time s) \<rparr>))"
proof -
  let ?s = "s\<lparr> last_check_time := AList.update check_type (DT now) (last_check_time s) \<rparr>"
  have stored: "map_of (last_check_time ?s) check_type = Some (DT now)"
    by (simp add: AList.update_conv')
  have first: "should_check E check_type m now s = Inr (True, ?s)"
    using assms(1) by (simp add: should_check_def)
  have closed: "should_check E check_type m later ?s = Inr (False, ?s)"
    if "later - now < minutes (min m 100000000)" for later
  proof -
    have "double (total_seconds (later - now) / 60) < of_int (min m 100000000)"
      using that assms(2) by (intro interval_not_reached) simp_all
    also have "\<dots> \<le> of_int m" by simp
    finally have "\<not> of_int m \<le> double (total_seconds (later - now) / 60)" by simp
    then show ?thesis by (simp add: should_check_datetime[OF stored])
  qed
  have "now - now < minutes (min m 100000000)" using assms(2) by (simp add: minutes_def)
  from closed[OF this] first closed show ?thesis by blast
qed

theorem should_check_first_then_gated_witness:
  "should_check test_env ''followers'' 60 5 idle_bot =
     Inr (True, idle_bot\<lparr> last_check_time := [(''followers'', DT 5)] \<rparr>)
   \<and> should_check test_env ''followers'' 60 5 (idle_bot\<lparr> last_check_time := [(''followers'', DT 5)] \<rparr>) =
     Inr (False, idle_bot\<lparr> last_check_time := [(''followers'', DT 5)] \<rparr>)
   \<and> should_check test_env ''followers'' 60 (minutes 59 + 5)
       (idle_bot\<lparr> last_check_time := [(''followers'', DT 5)] \<rparr>) =
     Inr (False, idle_bot\<lparr> last_check_time := [(''followers'', DT 5)] \<rparr>)"
proof -
  have none: "map_of (last_check_time idle_bot) ''followers'' = None" by (simp add: idle_bot_def)
  have pos: "(0::int) < 60" by simp
  have soon: "minutes 59 + 5 - 5 < minutes (min 60 100000000)" by (simp add: minutes_def)
  note gate = should_check_first_then_gated[OF none pos, of test_env 5]
  from gate[THEN conjunct1] gate[THEN conjunct2, THEN conjunct1]
    gate[THEN conjunct2, THEN conjunct2, rule_format, OF soon]
  show ?thesis by (simp add: idle_bot_def)
qed

text \<open>
  Claim C6, as the code has it. When the stored timestamp of a check type is a string that
  \<^verbatim>\<open>datetime.fromisoformat\<close> rejects, \<^verbatim>\<open>should_check\<close> puts
  \<^verbatim>\<open>now - timedelta(minutes=min_interval_minutes+1)\<close> in its place; when that is a
  datetime (the interval does not reach back before year 1, nor forward beyond year 9999),
  \<^verbatim>\<open>should_check\<close> returns \<^verbatim>\<open>True\<close> and stores the current time.
\<close>

theorem should_check_unparseable_fails_open:
  assumes "map_of (last_check_time s) check_type = Some (TS t)"
    and "fromisoformat E t = Unparseable"
    and "valid_datetime now"
    and "valid_datetime (now - minutes (m + 1))"
  shows "should_check E check_type m now s =
           Inr (True, s\<lparr> last_check_time := AList.update check_type (DT now) (last_check_time s) \<rparr>)"
proof -
  have small: "\<bar>60 * (m + 1)\<bar> < 2 ^ 53" "\<bar>m + 1\<bar> < 2 ^ 53"
    using assms(3,4)
    by (simp_all add: valid_datetime_def datetime_span_def minutes_def abs_less_iff)
  have "(of_int (minutes (m + 1)) :: rat) / 1000000 = of_int (60 * (m + 1))"
    by (simp add: minutes_def add_divide_distrib)
  then have "total_seconds (minutes (m + 1)) = double (of_int (60 * (m + 1)))"
    by (simp only: total_seconds_def)
  also have "\<dots> = of_int (60 * (m + 1))" using small(1) by (rule double_of_int)
  finally have "double (total_seconds (minutes (m + 1)) / 60) = double (of_int (m + 1))"
    by (simp add: add_divide_distrib)
  also have "\<dots> = of_int (m + 1)" using small(2) by (rule double_of_int)
  finally have "of_int m \<le> double (total_seconds (minutes (m + 1)) / 60)" by simp
  then show ?thesis using assms by (simp add: should_check_def Let_def)
qed

theorem should_check_unparseable_fails_open_witness:
  "should_check test_env ''mentions'' 45 (minutes 100)
     (idle_bot\<lparr> last_check_time := [(''mentions'', TS ''garbage'')] \<rparr>) =
     Inr (True, idle_bot\<lparr> last_check_time := [(''mentions'', DT (minutes 100))] \<rparr>)"
proof -
  have stored: "map_of (last_check_time (idle_bot\<lparr> last_check_time := [(''mentions'', TS ''garbage'')] \<rparr>))
      ''mentions'' = Some (TS ''garbage'')" by simp
  have bad: "fromisoformat test_env ''garbage'' = Unparseable"
    by (simp add: test_env_def test_fromisoformat_def)
  have now: "valid_datetime (minutes 100)" and before: "valid_datetime (minutes 100 - minutes (45 + 1))"
    by (simp_all add: valid_datetime_def datetime_span_def minutes_def)
  show ?thesis
    using should_check_unparseable_fails_open[OF stored bad now before] by simp
qed

lemma test_fromisoformat_samples:
  "test_fromisoformat ''9000000000'' = Naive 9000000000"
  "test_fromisoformat ''5Z'' = Aware"
  "test_fromisoformat ''garbage'' = Unparseable"
  by (simp_all add: test_fromisoformat_def valid_datetime_def datetime_span_def)

text \<open>
  Claim C6 as stated fails. The stored string is corrupted and still parses, to a later
  moment: the gate stays shut. It parses to a datetime with a UTC offset: the subtraction
  raises \<^verbatim>\<open>TypeError\<close>. It is rejected, and the interval reaches back before year 1:
  the \<^verbatim>\<open>except\<close> clause raises \<^verbatim>\<open>OverflowError\<close>.
\<close>

theorem should_check_corrupted_counterexample:
  "should_check test_env ''mentions'' 45 (minutes 100)
     (idle_bot\<lparr> last_check_time := [(''mentions'', TS ''9000000000'')] \<rparr>) =
     Inr (False, idle_bot\<lparr> last_check_time := [(''mentions'', TS ''9000000000'')] \<rparr>)
   \<and> should_check test_env ''mentions'' 45 (minutes 100)
     (idle_bot\<lparr> last_check_time := [(''mentions'', TS ''5Z'')] \<rparr>) = Inl TypeError
   \<and> should_check test_env ''mentions'' 120 (minutes 100)
     (idle_bot\<lparr> last_check_time := [(''mentions'', TS ''garbage'')] \<rparr>) = Inl OverflowError"
  by (simp add: should_check_def test_env_def test_fromisoformat_samples interval_agrees_numeral
      valid_datetime_def minutes_def Let_def)

subsection \<open>Saving and loading the state\<close>

lemma stamps_written_and_read:
  "map (\<lambda>(k, t). (k, TS t)) (map (\<lambda>(k, v). (k, stamp_str E v)) l) =
   map (\<lambda>(k, v). (k, TS (stamp_str E v))) l"
  by (induction l) auto

lemma stamps_of_strings:
  "(\<forall>(k, v) \<in> set l. \<exists>t. v = TS t) \<Longrightarrow> map (\<lambda>(k, v). (k, TS (stamp_str E v))) l = l"
  by (induction l) (auto simp: stamp_str_def)

text \<open>
  Claim C3, as the code has it. \<^verbatim>\<open>json.dump(..., default=str)\<close> writes every datetime
  of \<^verbatim>\<open>last_check_time\<close> as its string, and \<^verbatim>\<open>load_state\<close> does not convert
  it back (\<^verbatim>\<open>should_check\<close> parses it when it reads it). So saving and then loading
  gives back \<^verbatim>\<open>user_id\<close>, \<^verbatim>\<open>last_follower_count\<close>, \<^verbatim>\<open>last_tweet_id\<close>,
  \<^verbatim>\<open>processed_mentions\<close> (when \<^verbatim>\<open>list\<close> enumerates exactly the elements of the
  set), \<^verbatim>\<open>tweet_metrics\<close> and \<^verbatim>\<open>notifications\<close> as they were, and
  \<^verbatim>\<open>last_check_time\<close> with every datetime replaced by its string.
\<close>

theorem load_after_save:
  assumes "set (set_list E (processed_mentions s)) = processed_mentions s"
  shows "load_state (fst (save_state E No_fault s file)) s0 =
           (True, s\<lparr> last_check_time := map (\<lambda>(k, v). (k, TS (stamp_str E v))) (last_check_time s) \<rparr>)"
  using assms
  by (cases s; cases s0)
     (simp add: load_state_def save_state_def save_data_def stamps_written_and_read del: map_map)

theorem load_after_save_witness:
  "load_state (fst (save_state test_env No_fault checked_bot Missing)) idle_bot =
     (True, checked_bot\<lparr> last_check_time := [(''followers'', TS ''5'')] \<rparr>)"
proof -
  have "finite (processed_mentions checked_bot)" by (simp add: checked_bot_def)
  then have enum: "set (set_list test_env (processed_mentions checked_bot)) = processed_mentions checked_bot"
    by (simp add: test_env_def)
  have five: "str_int 5 = ''5''" by (simp add: str_int_def str_nat.simps digit_def)
  show ?thesis
    using load_after_save[OF enum, of Missing idle_bot]
    by (simp add: checked_bot_def stamp_str_def test_env_def five)
qed

text \<open>
  Claim C3 as stated fails: a state whose \<^verbatim>\<open>last_check_time\<close> holds a datetime (every
  state that \<^verbatim>\<open>should_check\<close> has written to) does not come back equal.
\<close>

theorem load_after_save_counterexample:
  "load_state (fst (save_state test_env No_fault checked_bot Missing)) idle_bot \<noteq> (True, checked_bot)"
proof -
  have "last_check_time (snd (load_state (fst (save_state test_env No_fault checked_bot Missing)) idle_bot))
        = [(''followers'', TS (str_int 5))]"
    by (simp add: load_state_def save_state_def save_data_def checked_bot_def stamp_str_def test_env_def)
  moreover have "last_check_time (snd (True, checked_bot)) = [(''followers'', DT 5)]"
    by (simp add: checked_bot_def)
  ultimately show ?thesis by (metis list.inject prod.inject stamp.distinct(1))
qed

text \<open>A state whose timestamps are all strings already (a state just loaded) does come back equal.\<close>

lemma reload_of_strings:
  assumes "set (set_list E (processed_mentions s)) = processed_mentions s"
    and "\<forall>(k, v) \<in> set (last_check_time s). \<exists>t. v = TS t"
  shows "load_state (fst (save_state E No_fault s file)) s0 = (True, s)"
  using assms(1) stamps_of_strings[OF assms(2), of E]
  by (cases s; cases s0)
     (simp add: load_state_def save_state_def save_data_def stamps_written_and_read del: map_map)

text \<open>
  A stored datetime and its string give the same answer at the gate, when
  \<^verbatim>\<open>fromisoformat\<close> reads back what \<^verbatim>\<open>str\<close> wrote: the gate decides alike before
  saving and after loading.
\<close>

lemma stamp_after_reload:
  "map_of (map (\<lambda>(k, v). (k, TS (stamp_str E v))) l) k = map_option (\<lambda>v. TS (stamp_str E v)) (map_of l k)"
  by (induction l) auto

lemma should_check_after_reload:
  assumes "map_of (last_check_time s) check_type = Some (DT d)"
    and "fromisoformat E (dt_str E d) = Naive d"
  shows "map_sum id fst (should_check E check_type m now
           (s\<lparr> last_check_time := map (\<lambda>(k, v). (k, TS (stamp_str E v))) (last_check_time s) \<rparr>))
       = map_sum id fst (should_check E check_type m now s)"
proof -
  have "map_of (map (\<lambda>(k, v). (k, TS (stamp_str E v))) (last_check_time s)) check_type
          = Some (TS (dt_str E d))"
    using assms(1) by (simp add: stamp_after_reload) (simp add: stamp_str_def)
  then show ?thesis
    using assms by (simp add: should_check_def Let_def)
qed

lemma in_memory_Inr_persist: "in_memory (Inr (persist E fault w)) = in_memory (Inr w)"
  by (simp add: in_memory_def persist_def)

lemma check_new_followers_fault:
  "in_memory (check_new_followers E A fault w) = in_memory (check_new_followers E A No_fault w)"
  by (simp add: check_new_followers_def in_memory_Inr_persist Let_def
      split: sum.splits prod.splits option.splits)

lemma check_new_tweets_fault:
  "in_memory (check_new_tweets E A fault w) = in_memory (check_new_tweets E A No_fault w)"
  by (simp add: check_new_tweets_def in_memory_Inr_persist Let_def
      split: sum.splits prod.splits option.splits list.splits)

lemma check_mentions_fault:
  "in_memory (check_mentions E A fault w) = in_memory (check_mentions E A No_fault w)"
  by (simp add: check_mentions_def in_memory_Inr_persist Let_def
      split: sum.splits prod.splits option.splits list.splits)

lemma check_tweet_engagement_fault:
  "in_memory (check_tweet_engagement E A fault w) = in_memory (check_tweet_engagement E A No_fault w)"
  by (simp add: check_tweet_engagement_def in_memory_Inr_persist Let_def
      split: sum.splits prod.splits option.splits list.splits)

text \<open>
  Claim C4, as the code has it. \<^verbatim>\<open>save_state\<close> swallows every write failure and
  prints it, and what a detector returns and leaves in memory does not depend on whether
  its write failed. The write itself is made in place: when \<^verbatim>\<open>open\<close> fails the file is
  as before, and when the write fails after \<^verbatim>\<open>open\<close> the file is left truncated.
\<close>

theorem save_state_in_place:
  "save_state E fault s file =
     (case fault of
        No_fault \<Rightarrow> (Intact (save_data E s), State_saved)
      | Open_fails \<Rightarrow> (file, Error_saving)
      | Dump_fails \<Rightarrow> (Truncated, Error_saving))
   \<and> in_memory (check_new_followers E A fault w) = in_memory (check_new_followers E A No_fault w)
   \<and> in_memory (check_new_tweets E A fault w) = in_memory (check_new_tweets E A No_fault w)
   \<and> in_memory (check_mentions E A fault w) = in_memory (check_mentions E A No_fault w)
   \<and> in_memory (check_tweet_engagement E A fault w) = in_memory (check_tweet_engagement E A No_fault w)"
  using check_new_followers_fault check_new_tweets_fault check_mentions_fault
    check_tweet_engagement_fault
  by (simp add: save_state_def split: write_fault.splits)

theorem save_state_in_place_witness:
  "save_state test_env Open_fails checked_bot (Intact (save_data test_env idle_bot)) =
     (Intact (save_data test_env idle_bot), Error_saving)"
  using save_state_in_place[of test_env Open_fails checked_bot "Intact (save_data test_env idle_bot)"]
  by simp

text \<open>
  Claim C4 as stated fails: with a complete document on disk, a write that fails after
  \<^verbatim>\<open>open\<close> leaves a file that \<^verbatim>\<open>load_state\<close> can no longer read, where it could
  read the one before.
\<close>

theorem save_state_truncates_counterexample:
  "fst (save_state test_env Dump_fails checked_bot (Intact (save_data test_env idle_bot))) = Truncated
   \<and> load_state (fst (save_state test_env Dump_fails checked_bot (Intact (save_data test_env idle_bot)))) idle_bot
       = (False, idle_bot)
   \<and> fst (load_state (Intact (save_data test_env idle_bot)) idle_bot) = True"
  by (simp add: save_state_def load_state_def)

subsection \<open>Engagement detector: one post\<close>

lemma str_int_41: "str_int 41 = ''41''"
  by (simp add: str_int_def str_nat.simps digit_def)

text \<open>
  Claim C7. For a post whose metrics are already tracked, the loop body appends one
  notification exactly when the likes grew by at least 10, or the retweets by at least 5,
  or the replies by at least 3, and none otherwise; in both cases it stores the fetched
  metrics under the post's id and changes nothing else.
\<close>

theorem engagement_step_tracked:
  assumes "map_of (tweet_metrics (bot w)) (str_int (tweet_id t)) = Some prev"
  shows "engagement_step E t (w, flag) =
     (let m = public_metrics t;
          like_diff = like_count m - like_count prev;
          rt_diff = retweet_count m - retweet_count prev;
          reply_diff = reply_count m - reply_count prev
      in (w\<lparr> bot := (bot w)\<lparr>
               notifications := notifications (bot w) @
                 (if like_diff \<ge> 10 \<or> rt_diff \<ge> 5 \<or> reply_diff \<ge> 3
                  then [log_entry E (clock w)
                          (engagement_message E t (change_text like_diff rt_diff reply_diff))]
                  else []),
               tweet_metrics := AList.update (str_int (tweet_id t)) m (tweet_metrics (bot w)) \<rparr> \<rparr>,
          True))
     \<and> map_of (tweet_metrics (bot (fst (engagement_step E t (w, flag))))) (str_int (tweet_id t))
         = Some (public_metrics t)"
  using assms
  by (simp add: engagement_step_def store_metrics_def notify_def log_notification_def Let_def
      AList.update_conv')

text \<open>
  With 30 likes, 2 retweets and 1 reply stored: 40, 6 and 3 (deltas +10, +4, +2) give one
  notification, 39, 6 and 3 (deltas +9, +4, +2) give none, and the stored metrics are
  overwritten all the same.
\<close>

theorem engagement_step_tracked_witness:
  "length (notifications (bot (fst (engagement_step test_env (tweet_41 3 6 40) (tracked_sys, False))))) = 1
   \<and> length (notifications (bot (fst (engagement_step test_env (tweet_41 3 6 39) (tracked_sys, False))))) = 0
   \<and> tweet_metrics (bot (fst (engagement_step test_env (tweet_41 3 6 39) (tracked_sys, False))))
       = [(''41'', \<lparr> reply_count = 3, retweet_count = 6, like_count = 39, quote_count = 0 \<rparr>)]"
proof -
  have stored: "\<And>a b c. map_of (tweet_metrics (bot tracked_sys)) (str_int (tweet_id (tweet_41 a b c)))
      = Some \<lparr> reply_count = 1, retweet_count = 2, like_count = 30, quote_count = 0 \<rparr>"
    by (simp add: tracked_sys_def tweet_41_def str_int_41)
  show ?thesis
    using engagement_step_tracked[OF stored, of test_env 3 6 40 False]
      engagement_step_tracked[OF stored, of test_env 3 6 39 False]
    by (simp add: tracked_sys_def tweet_41_def str_int_41 idle_sys_def idle_bot_def Let_def)
qed

subsection \<open>A detector whose fetch fails\<close>

text \<open>\<^verbatim>\<open>safe_api_call\<close> touches neither \<^verbatim>\<open>bot_state\<close> nor the file, and what it returns depends on the operation only.\<close>

lemma safe_api_loop_frame:
  "bot (snd (safe_api_loop func j w)) = bot w \<and> state_file (snd (safe_api_loop func j w)) = state_file w"
proof (induction func j w rule: safe_api_loop.induct)
  case (1 func retry_count w)
  show ?case
  proof (cases "retry_count < max_retries")
    case False
    then show ?thesis by (simp add: safe_api_loop.simps)
  next
    case True
    show ?thesis
    proof (cases "func retry_count")
      case (Returned r)
      with True show ?thesis by (simp add: safe_api_loop.simps)
    next
      case TooManyRequests
      with True "1.IH"(1)[OF True TooManyRequests refl refl] show ?thesis
        by (subst (1 2) safe_api_loop.simps) (simp add: Let_def sleep_def)
    next
      case OtherException
      with True "1.IH"(2)[OF True OtherException refl refl] show ?thesis
        by (subst (1 2) safe_api_loop.simps) (simp add: Let_def sleep_def)
    qed
  qed
qed

lemma safe_api_call_frame:
  "safe_api_call func w = (r, w') \<Longrightarrow> bot w' = bot w \<and> state_file w' = state_file w"
  using safe_api_loop_frame[of func 0 w] by (simp add: safe_api_call_def)

lemma safe_api_loop_answer:
  "fst (safe_api_loop func j w) = fst (safe_api_loop func j w')"
proof (induction func j w arbitrary: w' rule: safe_api_loop.induct)
  case (1 func retry_count w)
  show ?case
  proof (cases "retry_count < max_retries")
    case False
    then show ?thesis by (simp add: safe_api_loop.simps)
  next
    case True
    show ?thesis
    proof (cases "func retry_count")
      case (Returned r)
      with True show ?thesis by (simp add: safe_api_loop.simps)
    next
      case TooManyRequests
      with True "1.IH"(1)[OF True TooManyRequests refl refl] show ?thesis
        by (subst (1 2) safe_api_loop.simps) (simp add: Let_def)
    next
      case OtherException
      with True "1.IH"(2)[OF True OtherException refl refl] show ?thesis
        by (subst (1 2) safe_api_loop.simps) (simp add: Let_def)
    qed
  qed
qed

lemma safe_api_call_answer: "fst (safe_api_call func w) = fst (safe_api_call func w')"
  by (simp add: safe_api_call_def safe_api_loop_answer[of func 0 w w'])

lemma should_check_True_state:
  "should_check E check_type m now s = Inr (True, s1) \<Longrightarrow>
   s1 = s\<lparr> last_check_time := AList.update check_type (DT now) (last_check_time s) \<rparr>"
  by (auto simp: should_check_def Let_def split: option.splits stamp.splits parsed.splits if_splits)

text \<open>Within the interval after a stored datetime the gate is closed and changes nothing.\<close>

lemma should_check_gated:
  "map_of (last_check_time s) check_type = Some (DT d) \<Longrightarrow> now - d < minutes m \<Longrightarrow>
   0 < m \<Longrightarrow> m \<le> 100000000 \<Longrightarrow>
   should_check E check_type m now s = Inr (False, s)"
  by (simp add: should_check_exact)

lemma gate_stamp:
  "map_of (last_check_time (s\<lparr> last_check_time := AList.update check_type (DT now) (last_check_time s) \<rparr>))
     check_type = Some (DT now)"
  by (simp add: AList.update_conv')

lemma check_new_followers_fetch_fails:
  assumes gate: "should_check E ''followers'' 60 (clock w) (bot w) = Inr (True, s1)"
    and fetch: "fst (safe_api_call (get_user A) w) = None \<or> fst (safe_api_call (get_user A) w) = Some None"
  shows "\<exists>w'. check_new_followers E A fault w = Inr w'
      \<and> bot w' = (bot w)\<lparr> last_check_time :=
                     AList.update ''followers'' (DT (clock w)) (last_check_time (bot w)) \<rparr>
      \<and> state_file w' = state_file w
      \<and> (\<forall>v A' fault'. bot v = bot w' \<and> clock v - clock w < minutes 60 \<longrightarrow>
            check_new_followers E A' fault' v = Inr v)"
proof -
  obtain r w2 where call: "safe_api_call (get_user A) (w\<lparr> bot := s1 \<rparr>) = (r, w2)"
    by (cases "safe_api_call (get_user A) (w\<lparr> bot := s1 \<rparr>)") auto
  have r: "r = None \<or> r = Some None"
    using fetch safe_api_call_answer[of "get_user A" w "w\<lparr> bot := s1 \<rparr>"] call by simp
  have frame: "bot w2 = s1" "state_file w2 = state_file w"
    using safe_api_call_frame[OF call] by simp_all
  have s1: "s1 = (bot w)\<lparr> last_check_time :=
                     AList.update ''followers'' (DT (clock w)) (last_check_time (bot w)) \<rparr>"
    by (rule should_check_True_state[OF gate])
  have res: "check_new_followers E A fault w = Inr w2"
    using gate call r by (auto simp: check_new_followers_def)
  have later: "check_new_followers E A' fault' v = Inr v"
    if "bot v = bot w2" "clock v - clock w < minutes 60" for v A' fault'
  proof -
    have "map_of (last_check_time (bot v)) ''followers'' = Some (DT (clock w))"
      using that(1) frame(1) s1 by (simp add: AList.update_conv')
    then have "should_check E ''followers'' 60 (clock v) (bot v) = Inr (False, bot v)"
      using that(2) by (rule should_check_gated) simp_all
    then show ?thesis by (simp add: check_new_followers_def)
  qed
  show ?thesis
    using res frame s1 later by auto
qed

lemma check_new_tweets_fetch_fails:
  assumes gate: "should_check E ''tweets'' 30 (clock w) (bot w) = Inr (True, s1)"
    and fetch: "fst (safe_api_call (get_users_tweets A) w) = None \<or> fst (safe_api_call (get_users_tweets A) w) = Some []"
  shows "\<exists>w'. check_new_tweets E A fault w = Inr w'
      \<and> bot w' = (bot w)\<lparr> last_check_time :=
                     AList.update ''tweets'' (DT (clock w)) (last_check_time (bot w)) \<rparr>
      \<and> state_file w' = state_file w
      \<and> (\<forall>v A' fault'. bot v = bot w' \<and> clock v - clock w < minutes 30 \<longrightarrow>
            check_new_tweets E A' fault' v = Inr v)"
proof -
  obtain r w2 where call: "safe_api_call (get_users_tweets A) (w\<lparr> bot := s1 \<rparr>) = (r, w2)"
    by (cases "safe_api_call (get_users_tweets A) (w\<lparr> bot := s1 \<rparr>)") auto
  have r: "r = None \<or> r = Some []"
    using fetch safe_api_call_answer[of "get_users_tweets A" w "w\<lparr> bot := s1 \<rparr>"] call by simp
  have frame: "bot w2 = s1" "state_file w2 = state_file w"
    using safe_api_call_frame[OF call] by simp_all
  have s1: "s1 = (bot w)\<lparr> last_check_time :=
                     AList.update ''tweets'' (DT (clock w)) (last_check_time (bot w)) \<rparr>"
    by (rule should_check_True_state[OF gate])
  have res: "check_new_tweets E A fault w = Inr w2"
    using gate call r by (auto simp: check_new_tweets_def)
  have later: "check_new_tweets E A' fault' v = Inr v"
    if "bot v = bot w2" "clock v - clock w < minutes 30" for v A' fault'
  proof -
    have "map_of (last_check_time (bot v)) ''tweets'' = Some (DT (clock w))"
      using that(1) frame(1) s1 by (simp add: AList.update_conv')
    then have "should_check E ''tweets'' 30 (clock v) (bot v) = Inr (False, bot v)"
      using that(2) by (rule should_check_gated) simp_all
    then show ?thesis by (simp add: check_new_tweets_def)
  qed
  show ?thesis
    using res frame s1 later by auto
qed

lemma check_mentions_fetch_fails:
  assumes gate: "should_check E ''mentions'' 45 (clock w) (bot w) = Inr (True, s1)"
    and fetch: "fst (safe_api_call (get_users_mentions A) w) = None \<or> fst (safe_api_call (get_users_mentions A) w) = Some []"
  shows "\<exists>w'. check_mentions E A fault w = Inr w'
      \<and> bot w' = (bot w)\<lparr> last_check_time :=
                     AList.update ''mentions'' (DT (clock w)) (last_check_time (bot w)) \<rparr>
      \<and> state_file w' = state_file w
      \<and> (\<forall>v A' fault'. bot v = bot w' \<and> clock v - clock w < minutes 45 \<longrightarrow>
            check_mentions E A' fault' v = Inr v)"
proof -
  obtain r w2 where call: "safe_api_call (get_users_mentions A) (w\<lparr> bot := s1 \<rparr>) = (r, w2)"
    by (cases "safe_api_call (get_users_mentions A) (w\<lparr> bot := s1 \<rparr>)") auto
  have r: "r = None \<or> r = Some []"
    using fetch safe_api_call_answer[of "get_users_mentions A" w "w\<lparr> bot := s1 \<rparr>"] call by simp
  have frame: "bot w2 = s1" "state_file w2 = state_file w"
    using safe_api_call_frame[OF call] by simp_all
  have s1: "s1 = (bot w)\<lparr> last_check_time :=
                     AList.update ''mentions'' (DT (clock w)) (last_check_time (bot w)) \<rparr>"
    by (rule should_check_True_state[OF gate])
  have res: "check_mentions E A fault w = Inr w2"
    using gate call r by (auto simp: check_mentions_def)
  have later: "check_mentions E A' fault' v = Inr v"
    if "bot v = bot w2" "clock v - clock w < minutes 45" for v A' fault'
  proof -
    have "map_of (last_check_time (bot v)) ''mentions'' = Some (DT (clock w))"
      using that(1) frame(1) s1 by (simp add: AList.update_conv')
    then have "should_check E ''mentions'' 45 (clock v) (bot v) = Inr (False, bot v)"
      using that(2) by (rule should_check_gated) simp_all
    then show ?thesis by (simp add: check_mentions_def)
  qed
  show ?thesis
    using res frame s1 later by auto
qed

text \<open>
  The engagement detector returns before the fetch when no post has been seen yet; the
  gate has moved all the same.
\<close>

lemma check_tweet_engagement_fetch_fails:
  assumes gate: "should_check E ''engagement'' 120 (clock w) (bot w) = Inr (True, s1)"
    and fetch: "fst (safe_api_call (get_users_tweets A) w) = None
              \<or> fst (safe_api_call (get_users_tweets A) w) = Some []"
  shows "\<exists>w'. check_tweet_engagement E A fault w = Inr w'
      \<and> bot w' = (bot w)\<lparr> last_check_time :=
                     AList.update ''engagement'' (DT (clock w)) (last_check_time (bot w)) \<rparr>
      \<and> state_file w' = state_file w
      \<and> (\<forall>v A' fault'. bot v = bot w' \<and> clock v - clock w < minutes 120 \<longrightarrow>
            check_tweet_engagement E A' fault' v = Inr v)"
proof -
  have s1: "s1 = (bot w)\<lparr> last_check_time :=
                     AList.update ''engagement'' (DT (clock w)) (last_check_time (bot w)) \<rparr>"
    by (rule should_check_True_state[OF gate])
  have later: "check_tweet_engagement E A' fault' v = Inr v"
    if "bot v = s1" "clock v - clock w < minutes 120" for v A' fault'
  proof -
    have "map_of (last_check_time (bot v)) ''engagement'' = Some (DT (clock w))"
      using that(1) s1 by (simp add: AList.update_conv')
    then have "should_check E ''engagement'' 120 (clock v) (bot v) = Inr (False, bot v)"
      using that(2) by (rule should_check_gated) simp_all
    then show ?thesis by (simp add: check_tweet_engagement_def)
  qed
  show ?thesis
  proof (cases "last_tweet_id s1")
    case None
    then have "check_tweet_engagement E A fault w = Inr (w\<lparr> bot := s1 \<rparr>)"
      using gate by (simp add: check_tweet_engagement_def)
    then show ?thesis using s1 later by auto
  next
    case (Some seen)
    obtain r w2 where call: "safe_api_call (get_users_tweets A) (w\<lparr> bot := s1 \<rparr>) = (r, w2)"
      by (cases "safe_api_call (get_users_tweets A) (w\<lparr> bot := s1 \<rparr>)") auto
    have r: "r = None \<or> r = Some []"
      using fetch safe_api_call_answer[of "get_users_tweets A" w "w\<lparr> bot := s1 \<rparr>"] call by simp
    have frame: "bot w2 = s1" "state_file w2 = state_file w"
      using safe_api_call_frame[OF call] by simp_all
    have "check_tweet_engagement E A fault w = Inr w2"
      using gate call r Some by (auto simp: check_tweet_engagement_def)
    then show ?thesis using frame s1 later by auto
  qed
qed

text \<open>
  Claim C10. When the gate of a detector has passed and its fetch fails (three failed
  attempts) or returns nothing, the detector returns normally with \<^verbatim>\<open>bot_state\<close> as it
  was except for \<^verbatim>\<open>last_check_time\<close> of its check type, which holds the time of the
  gate, and with the state file untouched; and as long as less than the minimum interval
  has passed since that time, running the detector again does nothing at all (no call of
  the API, no sleep, no write).
\<close>

theorem fetch_failure_moves_gate_only:
  "(should_check E ''followers'' 60 (clock w) (bot w) = Inr (True, sa)
      \<and> (fst (safe_api_call (get_user A) w) = None \<or> fst (safe_api_call (get_user A) w) = Some None)
    \<longrightarrow> (\<exists>w'. check_new_followers E A fault w = Inr w'
          \<and> bot w' = (bot w)\<lparr> last_check_time :=
                         AList.update ''followers'' (DT (clock w)) (last_check_time (bot w)) \<rparr>
          \<and> state_file w' = state_file w
          \<and> (\<forall>v A' fault'. bot v = bot w' \<and> clock v - clock w < minutes 60 \<longrightarrow>
                check_new_followers E A' fault' v = Inr v)))
   \<and> (should_check E ''tweets'' 30 (clock w) (bot w) = Inr (True, sb)
      \<and> (fst (safe_api_call (get_users_tweets A) w) = None
         \<or> fst (safe_api_call (get_users_tweets A) w) = Some [])
    \<longrightarrow> (\<exists>w'. check_new_tweets E A fault w = Inr w'
          \<and> bot w' = (bot w)\<lparr> last_check_time :=
                         AList.update ''tweets'' (DT (clock w)) (last_check_time (bot w)) \<rparr>
          \<and> state_file w' = state_file w
          \<and> (\<forall>v A' fault'. bot v = bot w' \<and> clock v - clock w < minutes 30 \<longrightarrow>
                check_new_tweets E A' fault' v = Inr v)))
   \<and> (should_check E ''mentions'' 45 (clock w) (bot w) = Inr (True, sc)
      \<and> (fst (safe_api_call (get_users_mentions A) w) = None
         \<or> fst (safe_api_call (get_users_mentions A) w) = Some [])
    \<longrightarrow> (\<exists>w'. check_mentions E A fault w = Inr w'
          \<and> bot w' = (bot w)\<lparr> last_check_time :=
                         AList.update ''mentions'' (DT (clock w)) (last_check_time (bot w)) \<rparr>
          \<and> state_file w' = state_file w
          \<and> (\<forall>v A' fault'. bot v = bot w' \<and> clock v - clock w < minutes 45 \<longrightarrow>
                check_mentions E A' fault' v = Inr v)))
   \<and> (should_check E ''engagement'' 120 (clock w) (bot w) = Inr (True, sd)
      \<and> (fst (safe_api_call (get_users_tweets A) w) = None
         \<or> fst (safe_api_call (get_users_tweets A) w) = Some [])
    \<longrightarrow> (\<exists>w'. check_tweet_engagement E A fault w = Inr w'
          \<and> bot w' = (bot w)\<lparr> last_check_time :=
                         AList.update ''engagement'' (DT (clock w)) (last_check_time (bot w)) \<rparr>
          \<and> state_file w' = state_file w
          \<and> (\<forall>v A' fault'. bot v = bot w' \<and> clock v - clock w < minutes 120 \<longrightarrow>
                check_tweet_engagement E A' fault' v = Inr v)))"
  using check_new_followers_fetch_fails[of E w sa A fault]
    check_new_tweets_fetch_fails[of E w sb A fault]
    check_mentions_fetch_fails[of E w sc A fault]
    check_tweet_engagement_fetch_fails[of E w sd A fault]
  by blast

lemma down_api_answers:
  "fst (safe_api_call (get_user down_api) w) = None"
  "fst (safe_api_call (get_users_tweets down_api) w) = None"
  "fst (safe_api_call (get_users_mentions down_api) w) = Some []"
  by (simp_all add: safe_api_call_def safe_api_loop.simps down_api_def max_retries_def Let_def)

text \<open>
  With the API down, on a system that has seen post 41 and never ran a check, each
  detector leaves only its own timestamp behind, and stays closed 29 minutes later.
\<close>

theorem fetch_failure_moves_gate_only_witness:
  "(\<exists>w'. check_new_followers test_env down_api No_fault tracked_sys = Inr w'
        \<and> last_check_time (bot w') = [(''followers'', DT 0)] \<and> state_file w' = Missing
        \<and> check_new_followers test_env down_api No_fault (w'\<lparr> clock := minutes 29 \<rparr>)
            = Inr (w'\<lparr> clock := minutes 29 \<rparr>))
   \<and> (\<exists>w'. check_new_tweets test_env down_api No_fault tracked_sys = Inr w'
        \<and> last_check_time (bot w') = [(''tweets'', DT 0)] \<and> state_file w' = Missing
        \<and> check_new_tweets test_env down_api No_fault (w'\<lparr> clock := minutes 29 \<rparr>)
            = Inr (w'\<lparr> clock := minutes 29 \<rparr>))
   \<and> (\<exists>w'. check_mentions test_env down_api No_fault tracked_sys = Inr w'
        \<and> last_check_time (bot w') = [(''mentions'', DT 0)] \<and> state_file w' = Missing
        \<and> check_mentions test_env down_api No_fault (w'\<lparr> clock := minutes 29 \<rparr>)
            = Inr (w'\<lparr> clock := minutes 29 \<rparr>))
   \<and> (\<exists>w'. check_tweet_engagement test_env down_api No_fault tracked_sys = Inr w'
        \<and> last_check_time (bot w') = [(''engagement'', DT 0)] \<and> state_file w' = Missing
        \<and> check_tweet_engagement test_env down_api No_fault (w'\<lparr> clock := minutes 29 \<rparr>)
            = Inr (w'\<lparr> clock := minutes 29 \<rparr>))"
proof -
  have gates:
    "should_check test_env ''followers'' 60 (clock tracked_sys) (bot tracked_sys)
       = Inr (True, (bot tracked_sys)\<lparr> last_check_time := [(''followers'', DT 0)] \<rparr>)"
    "should_check test_env ''tweets'' 30 (clock tracked_sys) (bot tracked_sys)
       = Inr (True, (bot tracked_sys)\<lparr> last_check_time := [(''tweets'', DT 0)] \<rparr>)"
    "should_check test_env ''mentions'' 45 (clock tracked_sys) (bot tracked_sys)
       = Inr (True, (bot tracked_sys)\<lparr> last_check_time := [(''mentions'', DT 0)] \<rparr>)"
    "should_check test_env ''engagement'' 120 (clock tracked_sys) (bot tracked_sys)
       = Inr (True, (bot tracked_sys)\<lparr> last_check_time := [(''engagement'', DT 0)] \<rparr>)"
    by (simp_all add: should_check_def tracked_sys_def idle_sys_def idle_bot_def)
  have facts: "last_check_time (bot tracked_sys) = []" "clock tracked_sys = 0"
    "state_file tracked_sys = Missing"
    by (simp_all add: tracked_sys_def idle_sys_def idle_bot_def)
  have soon: "minutes 29 - 0 < minutes 30" "minutes 29 - 0 < minutes 45"
    "minutes 29 - 0 < minutes 60" "minutes 29 - 0 < minutes 120"
    by (simp_all add: minutes_def)
  have a: "\<exists>w'. check_new_followers test_env down_api No_fault tracked_sys = Inr w'
        \<and> last_check_time (bot w') = [(''followers'', DT 0)] \<and> state_file w' = Missing
        \<and> check_new_followers test_env down_api No_fault (w'\<lparr> clock := minutes 29 \<rparr>)
            = Inr (w'\<lparr> clock := minutes 29 \<rparr>)"
  proof -
    from fetch_failure_moves_gate_only[where E = test_env and w = tracked_sys and A = down_api
        and fault = No_fault and sa = "(bot tracked_sys)\<lparr> last_check_time := [(''followers'', DT 0)] \<rparr>",
        THEN conjunct1]
      gates(1) down_api_answers(1)[of tracked_sys]
    obtain w' where run: "check_new_followers test_env down_api No_fault tracked_sys = Inr w'"
      and mem: "bot w' = (bot tracked_sys)\<lparr> last_check_time :=
          AList.update ''followers'' (DT (clock tracked_sys)) (last_check_time (bot tracked_sys)) \<rparr>"
      and disk: "state_file w' = state_file tracked_sys"
      and closed: "\<forall>v A' fault'. bot v = bot w' \<and> clock v - clock tracked_sys < minutes 60 \<longrightarrow>
          check_new_followers test_env A' fault' v = Inr v"
      by blast
    have "check_new_followers test_env down_api No_fault (w'\<lparr> clock := minutes 29 \<rparr>)
            = Inr (w'\<lparr> clock := minutes 29 \<rparr>)"
      using closed[rule_format, of "w'\<lparr> clock := minutes 29 \<rparr>"] soon by (simp add: facts)
    with run mem disk show ?thesis by (auto simp: facts)
  qed
  have b: "\<exists>w'. check_new_tweets test_env down_api No_fault tracked_sys = Inr w'
        \<and> last_check_time (bot w') = [(''tweets'', DT 0)] \<and> state_file w' = Missing
        \<and> check_new_tweets test_env down_api No_fault (w'\<lparr> clock := minutes 29 \<rparr>)
            = Inr (w'\<lparr> clock := minutes 29 \<rparr>)"
  proof -
    from fetch_failure_moves_gate_only[where E = test_env and w = tracked_sys and A = down_api
        and fault = No_fault and sb = "(bot tracked_sys)\<lparr> last_check_time := [(''tweets'', DT 0)] \<rparr>",
        THEN conjunct2, THEN conjunct1]
      gates(2) down_api_answers(2)[of tracked_sys]
    obtain w' where run: "check_new_tweets test_env down_api No_fault tracked_sys = Inr w'"
      and mem: "bot w' = (bot tracked_sys)\<lparr> last_check_time :=
          AList.update ''tweets'' (DT (clock tracked_sys)) (last_check_time (bot tracked_sys)) \<rparr>"
      and disk: "state_file w' = state_file tracked_sys"
      and closed: "\<forall>v A' fault'. bot v = bot w' \<and> clock v - clock tracked_sys < minutes 30 \<longrightarrow>
          check_new_tweets test_env A' fault' v = Inr v"
      by blast
    have "check_new_tweets test_env down_api No_fault (w'\<lparr> clock := minutes 29 \<rparr>)
            = Inr (w'\<lparr> clock := minutes 29 \<rparr>)"
      using closed[rule_format, of "w'\<lparr> clock := minutes 29 \<rparr>"] soon by (simp add: facts)
    with run mem disk show ?thesis by (auto simp: facts)
  qed
  have c: "\<exists>w'. check_mentions test_env down_api No_fault tracked_sys = Inr w'
        \<and> last_check_time (bot w') = [(''mentions'', DT 0)] \<and> state_file w' = Missing
        \<and> check_mentions test_env down_api No_fault (w'\<lparr> clock := minutes 29 \<rparr>)
            = Inr (w'\<lparr> clock := minutes 29 \<rparr>)"
  proof -
    from fetch_failure_moves_gate_only[where E = test_env and w = tracked_sys and A = down_api
        and fault = No_fault and sc = "(bot tracked_sys)\<lparr> last_check_time := [(''mentions'', DT 0)] \<rparr>",
        THEN conjunct2, THEN conjunct2, THEN conjunct1]
      gates(3) down_api_answers(3)[of tracked_sys]
    obtain w' where run: "check_mentions test_env down_api No_fault tracked_sys = Inr w'"
      and mem: "bot w' = (bot tracked_sys)\<lparr> last_check_time :=
          AList.update ''mentions'' (DT (clock tracked_sys)) (last_check_time (bot tracked_sys)) \<rparr>"
      and disk: "state_file w' = state_file tracked_sys"
      and closed: "\<forall>v A' fault'. bot v = bot w' \<and> clock v - clock tracked_sys < minutes 45 \<longrightarrow>
          check_mentions test_env A' fault' v = Inr v"
      by blast
    have "check_mentions test_env down_api No_fault (w'\<lparr> clock := minutes 29 \<rparr>)
            = Inr (w'\<lparr> clock := minutes 29 \<rparr>)"
      using closed[rule_format, of "w'\<lparr> clock := minutes 29 \<rparr>"] soon by (simp add: facts)
    with run mem disk show ?thesis by (auto simp: facts)
  qed
  have d: "\<exists>w'. check_tweet_engagement test_env down_api No_fault tracked_sys = Inr w'
        \<and> last_check_time (bot w') = [(''engagement'', DT 0)] \<and> state_file w' = Missing
        \<and> check_tweet_engagement test_env down_api No_fault (w'\<lparr> clock := minutes 29 \<rparr>)
            = Inr (w'\<lparr> clock := minutes 29 \<rparr>)"
  proof -
    from fetch_failure_moves_gate_only[where E = test_env and w = tracked_sys and A = down_api
        and fault = No_fault and sd = "(bot tracked_sys)\<lparr> last_check_time := [(''engagement'', DT 0)] \<rparr>",
        THEN conjunct2, THEN conjunct2, THEN conjunct2]
      gates(4) down_api_answers(2)[of tracked_sys]
    obtain w' where run: "check_tweet_engagement test_env down_api No_fault tracked_sys = Inr w'"
      and mem: "bot w' = (bot tracked_sys)\<lparr> last_check_time :=
          AList.update ''engagement'' (DT (clock tracked_sys)) (last_check_time (bot tracked_sys)) \<rparr>"
      and disk: "state_file w' = state_file tracked_sys"
      and closed: "\<forall>v A' fault'. bot v = bot w' \<and> clock v - clock tracked_sys < minutes 120 \<longrightarrow>
          check_tweet_engagement test_env A' fault' v = Inr v"
      by blast
    have "check_tweet_engagement test_env down_api No_fault (w'\<lparr> clock := minutes 29 \<rparr>)
            = Inr (w'\<lparr> clock := minutes 29 \<rparr>)"
      using closed[rule_format, of "w'\<lparr> clock := minutes 29 \<rparr>"] soon by (simp add: facts)
    with run mem disk show ?thesis by (auto simp: facts)
  qed
  from a b c d show ?thesis by blast
qed

subsection \<open>Mention detector\<close>

text \<open>
  The loop over the fetched mentions, in closed form: every id of the list ends up in
  \<^verbatim>\<open>processed_mentions\<close>, and one notification is appended, in the order of the list,
  for each mention the loop meets as new and that is at most 24 hours old.
\<close>

lemma mentions_loop_closed_form:
  "mentions_loop E authors ts (w, found) =
     (w\<lparr> bot := (bot w)\<lparr>
          processed_mentions := processed_mentions (bot w) \<union> (\<lambda>t. str_int (tweet_id t)) ` set ts,
          notifications := notifications (bot w) @
            map (\<lambda>t. log_entry E (clock w) (mention_message authors t))
              (filter (\<lambda>t. clock w - created_at t \<le> seconds 86400)
                 (unseen (processed_mentions (bot w)) ts)) \<rparr> \<rparr>,
      found \<or> unseen (processed_mentions (bot w)) ts \<noteq> [])"
proof (induction ts arbitrary: w found)
  case Nil
  show ?case by simp
next
  case (Cons t ts)
  show ?case
    by (simp add: Cons.IH mention_step_def notify_def log_notification_def Let_def
        insert_absorb Un_commute Un_assoc[symmetric] not_less day_agrees)
qed

lemma unseen_all_seen: "(\<forall>t \<in> set ts. str_int (tweet_id t) \<in> P) \<Longrightarrow> unseen P ts = []"
  by (induction ts) auto

lemma mentions_loop_all_seen:
  assumes "\<forall>t \<in> set ts. str_int (tweet_id t) \<in> processed_mentions (bot w)"
  shows "mentions_loop E authors ts (w, found) = (w, found)"
proof -
  have "processed_mentions (bot w) \<union> (\<lambda>t. str_int (tweet_id t)) ` set ts = processed_mentions (bot w)"
    using assms by auto
  then show ?thesis
    by (simp add: mentions_loop_closed_form unseen_all_seen[OF assms])
qed

text \<open>
  Claim C9, as the code has it. A fetched mention whose id is in
  \<^verbatim>\<open>processed_mentions\<close> is skipped with no change at all. Otherwise its id is added
  at once, and a notification is appended exactly when the mention is at most 24 hours
  old. Over the whole list, in its order, that gives the closed form above; and a list
  whose ids are all still in \<^verbatim>\<open>processed_mentions\<close> changes nothing. Nothing is said
  of an id that the eviction step has dropped from the set: it is new again.
\<close>

theorem mention_step_dedup:
  "(str_int (tweet_id t) \<in> processed_mentions (bot w) \<longrightarrow>
      mention_step E authors t (w, found) = (w, found))
   \<and> (str_int (tweet_id t) \<notin> processed_mentions (bot w) \<longrightarrow>
      mention_step E authors t (w, found) =
        (w\<lparr> bot := (bot w)\<lparr>
             processed_mentions := insert (str_int (tweet_id t)) (processed_mentions (bot w)),
             notifications := notifications (bot w) @
               (if clock w - created_at t \<le> seconds 86400
                then [log_entry E (clock w) (mention_message authors t)] else []) \<rparr> \<rparr>,
         True))
   \<and> mentions_loop E authors ts (w, found) =
       (w\<lparr> bot := (bot w)\<lparr>
            processed_mentions := processed_mentions (bot w) \<union> (\<lambda>t. str_int (tweet_id t)) ` set ts,
            notifications := notifications (bot w) @
              map (\<lambda>t. log_entry E (clock w) (mention_message authors t))
                (filter (\<lambda>t. clock w - created_at t \<le> seconds 86400)
                   (unseen (processed_mentions (bot w)) ts)) \<rparr> \<rparr>,
        found \<or> unseen (processed_mentions (bot w)) ts \<noteq> [])
   \<and> ((\<forall>t \<in> set ts. str_int (tweet_id t) \<in> processed_mentions (bot w)) \<longrightarrow>
        mentions_loop E authors ts (w, found) = (w, found))"
  using mentions_loop_closed_form[of E authors ts w found] mentions_loop_all_seen[of ts w E authors found]
  by (simp add: mention_step_def notify_def log_notification_def Let_def not_less day_agrees)

lemma str_int_100: "str_int 100 = ''100''"
  by (simp add: str_int_def str_nat.simps digit_def)

text \<open>
  A mention created 25 hours ago and seen for the first time is marked as processed and
  gives no notification; seen again while its id is in the set, it changes nothing.
\<close>

theorem mention_step_dedup_witness:
  "mention_step test_env (\<lambda>i. None) (mention_100 0) (idle_sys\<lparr> clock := seconds 90000 \<rparr>, False) =
     (idle_sys\<lparr> bot := idle_bot\<lparr> processed_mentions := {''100''} \<rparr>, clock := seconds 90000 \<rparr>, True)
   \<and> mention_step test_env (\<lambda>i. None) (mention_100 0)
       (idle_sys\<lparr> bot := idle_bot\<lparr> processed_mentions := {''100''} \<rparr>, clock := seconds 90000 \<rparr>,
        False) =
     (idle_sys\<lparr> bot := idle_bot\<lparr> processed_mentions := {''100''} \<rparr>, clock := seconds 90000 \<rparr>,
      False)
   \<and> mentions_loop test_env (\<lambda>i. None) [mention_100 0, mention_100 0]
       (idle_sys\<lparr> bot := idle_bot\<lparr> processed_mentions := {''100''} \<rparr> \<rparr>, False) =
     (idle_sys\<lparr> bot := idle_bot\<lparr> processed_mentions := {''100''} \<rparr> \<rparr>, False)"
proof -
  let ?old = "mention_100 0"
  let ?v = "idle_sys\<lparr> clock := seconds 90000 \<rparr>"
  let ?w = "idle_sys\<lparr> bot := idle_bot\<lparr> processed_mentions := {''100''} \<rparr>, clock := seconds 90000 \<rparr>"
  let ?u = "idle_sys\<lparr> bot := idle_bot\<lparr> processed_mentions := {''100''} \<rparr> \<rparr>"
  have fresh: "str_int (tweet_id ?old) \<notin> processed_mentions (bot ?v)"
    by (simp add: idle_sys_def idle_bot_def)
  have known: "str_int (tweet_id ?old) \<in> processed_mentions (bot ?w)"
    by (simp add: mention_100_def str_int_100)
  have all_known: "\<forall>t \<in> set [mention_100 0, mention_100 0]. str_int (tweet_id t) \<in> processed_mentions (bot ?u)"
    by (simp add: mention_100_def str_int_100)
  have a: "mention_step test_env (\<lambda>i. None) ?old (?v, False) = (?w, True)"
    using mention_step_dedup[of ?old ?v test_env "\<lambda>i. None" False "[]"] fresh
    by (simp add: idle_sys_def idle_bot_def mention_100_def str_int_100 seconds_def)
  have b: "mention_step test_env (\<lambda>i. None) ?old (?w, False) = (?w, False)"
    using mention_step_dedup[of ?old ?w test_env "\<lambda>i. None" False "[]"] known by blast
  have c: "mentions_loop test_env (\<lambda>i. None) [mention_100 0, mention_100 0] (?u, False) = (?u, False)"
    using mention_step_dedup[of ?old ?u test_env "\<lambda>i. None" False "[mention_100 0, mention_100 0]"]
      all_known by blast
  from a b c show ?thesis by blast
qed

subsection \<open>Eviction from the set of processed mentions\<close>

lemma safe_api_call_returns: "func 0 = Returned r \<Longrightarrow> safe_api_call func w = (Some r, w)"
  by (simp add: safe_api_call_def safe_api_loop.simps max_retries_def)

text \<open>
  The part of claim C2 that holds: when the set has more than 100 elements and
  \<^verbatim>\<open>list\<close> enumerates each of them once, exactly 50 of them remain.
\<close>

lemma evict_mentions_card:
  assumes "card P > 100" and "set (set_list E P) = P" and "distinct (set_list E P)"
  shows "card (evict_mentions E P) = 50 \<and> evict_mentions E P \<subseteq> P"
proof -
  let ?l = "set_list E P"
  have len: "length ?l = card P"
    using assms(2,3) distinct_card[of ?l] by simp
  have "card (set (drop (length ?l - 50) ?l)) = length (drop (length ?l - 50) ?l)"
    using assms(3) by (intro distinct_card distinct_drop)
  also have "\<dots> = 50" using len assms(1) by simp
  finally have "card (set (drop (length ?l - 50) ?l)) = 50" .
  moreover have "set (drop (length ?l - 50) ?l) \<subseteq> P"
    using set_drop_subset[of "length ?l - 50" ?l] assms(2) by simp
  ultimately show ?thesis using assms(1) by (simp add: evict_mentions_def)
qed

lemma evict_mentions_small: "card P \<le> 100 \<Longrightarrow> evict_mentions E P = P"
  by (simp add: evict_mentions_def)

lemma fold_insert_set: "fold insert xs A = set xs \<union> A"
  by (induction xs arbitrary: A) auto

lemma seen_ids_strict: "sorted_wrt (<) (''100'' # seen_ids)"
  unfolding seen_ids_def
  by (simp add: upt_rec str_int_def str_nat.simps digit_def sorted_wrt1
      sorted_wrt2[OF transp_on_less] del: sorted_wrt.simps(2))

lemma length_seen_ids: "length seen_ids = 100"
  by (simp add: seen_ids_def)

lemma seen_ids_facts:
  "distinct (''100'' # seen_ids)" "sorted (''100'' # seen_ids)" "length seen_ids = 100"
  "''100'' \<notin> set seen_ids" "distinct seen_ids"
proof -
  from seen_ids_strict show d: "distinct (''100'' # seen_ids)" and "sorted (''100'' # seen_ids)"
    by (simp_all only: strict_sorted_iff)
  show "length seen_ids = 100" by (rule length_seen_ids)
  from d show "''100'' \<notin> set seen_ids" and "distinct seen_ids"
    by (simp_all only: distinct.simps) simp_all
qed

lemma not_in_kept: "''100'' \<notin> set (drop 50 seen_ids)"
  using seen_ids_facts(4) in_set_dropD by fast

text \<open>
  Claim C2, the part that fails. The set holds no trace of the order of insertion, so
  the same 101 ids inserted in opposite orders give the same set and the same 50
  survivors, whatever \<^verbatim>\<open>list\<close> does; the 50 most recently inserted ids of the two
  histories differ. In at least one of the two the survivors are not the 50 most recently
  inserted.
\<close>

theorem evict_mentions_forgets_insertion_order:
  "\<not> (evict_mentions E (fold insert (''100'' # seen_ids) {}) = set (drop 51 (''100'' # seen_ids))
      \<and> evict_mentions E (fold insert (rev (''100'' # seen_ids)) {})
          = set (drop 51 (rev (''100'' # seen_ids))))"
proof
  assume both: "evict_mentions E (fold insert (''100'' # seen_ids) {}) = set (drop 51 (''100'' # seen_ids))
      \<and> evict_mentions E (fold insert (rev (''100'' # seen_ids)) {})
          = set (drop 51 (rev (''100'' # seen_ids)))"
  have "fold insert (''100'' # seen_ids) {} = fold insert (rev (''100'' # seen_ids)) {}"
    by (simp only: fold_insert_set set_rev)
  with both have same: "set (drop 51 (''100'' # seen_ids)) = set (drop 51 (rev (''100'' # seen_ids)))"
    by (elim conjE) (simp only:)
  have "drop 51 (rev (''100'' # seen_ids)) = rev (take 50 (''100'' # seen_ids))"
    by (simp add: drop_rev seen_ids_facts(3))
  then have "''100'' \<in> set (drop 51 (rev (''100'' # seen_ids)))"
    by simp
  moreover have "''100'' \<notin> set (drop 51 (''100'' # seen_ids))"
    using not_in_kept by simp
  ultimately show False using same by simp
qed

text \<open>
  With the enumeration in ascending order: the mention 100 arrives when the set holds
  the ids 200 to 299. It is inserted last, and it is the first to go.
\<close>

lemma newest_first_in_order:
  "set_list test_env (insert ''100'' (set seen_ids)) = ''100'' # seen_ids"
proof -
  have "sorted_list_of_set (set (''100'' # seen_ids)) = ''100'' # seen_ids"
    using seen_ids_facts(1,2)
    by (intro sorted_list_of_set.idem_if_sorted_distinct) simp_all
  then show ?thesis by (simp add: test_env_def)
qed

lemma card_with_newest: "card (insert ''100'' (set seen_ids)) = 101"
  using distinct_card[OF seen_ids_facts(1)] seen_ids_facts(3) by simp

lemma evict_mentions_newest:
  "evict_mentions test_env (insert ''100'' (set seen_ids)) = set (drop 50 seen_ids)"
  by (simp add: evict_mentions_def card_with_newest newest_first_in_order seen_ids_facts(3))

lemma mention_100_first_run:
  "check_mentions test_env (mention_api (mention_100 0)) No_fault full_sys =
     Inr (persist test_env No_fault
       (full_sys\<lparr> bot := idle_bot\<lparr>
          processed_mentions := set (drop 50 seen_ids),
          notifications := [log_entry test_env 0 (mention_message (author_map (Some [])) (mention_100 0))],
          last_check_time := [(''mentions'', DT 0)] \<rparr> \<rparr>))"
  by (simp add: check_mentions_def should_check_def safe_api_call_returns mention_api_def
      mention_step_def notify_def log_notification_def full_sys_def idle_sys_def idle_bot_def
      mention_100_def str_int_100 seen_ids_facts(4) evict_mentions_newest day_agrees seconds_def
      Let_def)

text \<open>
  Whatever \<^verbatim>\<open>list\<close> does, the eviction leaves at most 50 ids.
\<close>

lemma evict_mentions_at_most_50:
  assumes "card P > 100"
  shows "finite (evict_mentions E P)" and "card (evict_mentions E P) \<le> 50"
proof -
  let ?l = "set_list E P"
  have e: "evict_mentions E P = set (drop (length ?l - 50) ?l)"
    using assms by (simp add: evict_mentions_def)
  show "finite (evict_mentions E P)" by (simp add: e)
  have "card (set (drop (length ?l - 50) ?l)) \<le> length (drop (length ?l - 50) ?l)"
    by (rule card_length)
  also have "\<dots> \<le> 50" by simp
  finally show "card (evict_mentions E P) \<le> 50" by (simp only: e)
qed

text \<open>The two runs of the mention detector, under any enumeration of the set.\<close>

lemma mention_100_first_run_any:
  "check_mentions E (mention_api (mention_100 0)) No_fault full_sys =
     Inr (persist E No_fault
       (full_sys\<lparr> bot := idle_bot\<lparr>
          processed_mentions := evict_mentions E (insert ''100'' (set seen_ids)),
          notifications := [log_entry E 0 (mention_message (author_map (Some [])) (mention_100 0))],
          last_check_time := [(''mentions'', DT 0)] \<rparr> \<rparr>))"
  by (simp add: check_mentions_def should_check_def safe_api_call_returns mention_api_def
      mention_step_def notify_def log_notification_def full_sys_def idle_sys_def idle_bot_def
      mention_100_def str_int_100 seen_ids_facts(4) card_with_newest day_agrees seconds_def
      Let_def)

lemma mention_second_run_any:
  assumes new: "str_int i \<notin> K" and few: "finite K" "card K \<le> 50"
  shows "\<exists>w2. check_mentions E (mention_api (mention_numbered i)) No_fault
           ((persist E No_fault
              (full_sys\<lparr> bot := idle_bot\<lparr>
                 processed_mentions := K, notifications := ns,
                 last_check_time := [(''mentions'', DT 0)] \<rparr> \<rparr>))\<lparr> clock := minutes 45 \<rparr>) = Inr w2
         \<and> notifications (bot w2) =
             ns @ [log_entry E (minutes 45)
                     (mention_message (author_map (Some [])) (mention_numbered i))]"
proof -
  have "card (insert (str_int i) K) = Suc (card K)"
    using new few(1) by (rule card_insert_disjoint[rotated])
  then have kept: "evict_mentions E (insert (str_int i) K) = insert (str_int i) K"
    using few(2) by (intro evict_mentions_small) simp
  have young: "\<not> seconds 86400 < minutes 45" by (simp add: seconds_def minutes_def)
  show ?thesis
    using new
    by (simp add: check_mentions_def should_check_def interval_agrees_numeral
        safe_api_call_returns mention_api_def mention_step_def day_agrees young notify_def
        log_notification_def full_sys_def idle_sys_def idle_bot_def mention_numbered_def
        mention_100_def kept persist_def save_state_def Let_def)
qed

text \<open>
  Claim C9 as stated fails in its last part. The set holds the 100 ids 200 to 299 and the
  mention 100 arrives: 101 ids have been seen, and the eviction at the end of the run leaves
  at most 50 of them, whichever they are. One of the ids seen is no longer in the set, and
  when its mention is fetched in the next run it is new: it is notified again.
\<close>

theorem mention_renotified_counterexample:
  "\<forall>E. \<exists>i. str_int i \<in> insert ''100'' (set seen_ids) \<and> renotified E i"
proof
  fix E
  let ?P = "insert ''100'' (set seen_ids)"
  let ?K = "evict_mentions E ?P"
  have many: "card ?P > 100" by (simp add: card_with_newest)
  note few = evict_mentions_at_most_50[OF many, of E]
  have "\<not> ?P \<subseteq> ?K"
  proof
    assume "?P \<subseteq> ?K"
    then have "card ?P \<le> card ?K" using few(1) by (intro card_mono)
    with few(2) card_with_newest show False by simp
  qed
  then obtain x where x: "x \<in> ?P" "x \<notin> ?K" by blast
  have "\<exists>i. x = str_int i"
  proof (cases "x = ''100''")
    case True
    then show ?thesis using str_int_100 by metis
  next
    case False
    with x(1) have "x \<in> set seen_ids" by simp
    then show ?thesis by (auto simp: seen_ids_def)
  qed
  then obtain i where i: "x = str_int i" by blast
  from mention_second_run_any[of i ?K, OF _ few]  x(2) i
  obtain w2 where "check_mentions E (mention_api (mention_numbered i)) No_fault
           ((persist E No_fault
              (full_sys\<lparr> bot := idle_bot\<lparr>
                 processed_mentions := ?K,
                 notifications := [log_entry E 0 (mention_message (author_map (Some [])) (mention_100 0))],
                 last_check_time := [(''mentions'', DT 0)] \<rparr> \<rparr>))\<lparr> clock := minutes 45 \<rparr>) = Inr w2"
      and "notifications (bot w2) =
             [log_entry E 0 (mention_message (author_map (Some [])) (mention_100 0))]
             @ [log_entry E (minutes 45)
                     (mention_message (author_map (Some [])) (mention_numbered i))]"
    by blast
  then have again: "renotified E i"
    by (simp add: renotified_def mention_100_first_run_any) (simp add: persist_def)
  from x(1) i have "str_int i \<in> ?P" by simp
  with again show "\<exists>i. str_int i \<in> ?P \<and> renotified E i" by (intro exI[of _ i] conjI)
qed

subsection \<open>Eviction from the tracked metrics\<close>

text \<open>The parts of claim C8 that hold: the bound, and which keys survive.\<close>

lemma evict_metrics_length: "length tm \<le> 10 \<or> length (evict_metrics tm) \<le> 10"
proof (cases "length tm > 10")
  case True
  have "length (List.map_filter (\<lambda>k. map_option (Pair k) (map_of tm k))
                  (take 10 (rev (sort (map fst tm))))) \<le> length (take 10 (rev (sort (map fst tm))))"
    unfolding List.map_filter_def by (simp only: length_map length_filter_le)
  with True show ?thesis by (simp add: evict_metrics_def Let_def)
next
  case False
  then show ?thesis by simp
qed

lemma evict_metrics_bounded: "length (evict_metrics tm) \<le> 10"
  using evict_metrics_length[of tm] by (auto simp: evict_metrics_def)

lemma rebuilt_keys:
  "set ks \<subseteq> fst ` set tm \<Longrightarrow>
   map fst (List.map_filter (\<lambda>k. map_option (Pair k) (map_of tm k)) ks) = ks"
proof (induction ks)
  case Nil
  show ?case by (simp add: List.map_filter_simps)
next
  case (Cons k ks)
  then obtain v where "map_of tm k = Some v"
    by (cases "map_of tm k") (auto simp: map_of_eq_None_iff)
  with Cons show ?case by (simp add: List.map_filter_simps)
qed

text \<open>
  When more than 10 posts are tracked, the keys kept are the 10 greatest in the order of
  strings, greatest first.
\<close>

lemma evict_metrics_keys:
  assumes "length tm > 10"
  shows "map fst (evict_metrics tm) = take 10 (rev (sort (map fst tm)))"
proof -
  have "set (take 10 (rev (sort (map fst tm)))) \<subseteq> fst ` set tm"
    using set_take_subset[of 10 "rev (sort (map fst tm))"] by auto
  from rebuilt_keys[OF this] assms show ?thesis
    by (simp add: evict_metrics_def Let_def)
qed

lemma engagement_step_flag: "snd (engagement_step E t (w, flag))"
  by (simp add: engagement_step_def Let_def split: option.splits)

lemma engagement_loop_flag:
  "snd (engagement_loop E ts (w, flag)) = (flag \<or> ts \<noteq> [])"
proof (induction ts arbitrary: w flag)
  case Nil
  show ?case by simp
next
  case (Cons t ts)
  obtain w' where "engagement_step E t (w, flag) = (w', True)"
    using engagement_step_flag[of E t w flag] by (cases "engagement_step E t (w, flag)") simp
  with Cons.IH[of w' True] show ?case by simp
qed

lemma should_check_tweet_metrics:
  "should_check E check_type m now s = Inr (proceed, s') \<Longrightarrow> tweet_metrics s' = tweet_metrics s"
  by (auto simp: should_check_def Let_def
      split: option.splits stamp.splits parsed.splits if_splits)

text \<open>One run of the engagement detector keeps the number of tracked posts within 10.\<close>

lemma check_tweet_engagement_bounded:
  assumes small: "length (tweet_metrics (bot w)) \<le> 10"
    and run: "check_tweet_engagement E A fault w = Inr w'"
  shows "length (tweet_metrics (bot w')) \<le> 10"
proof -
  obtain proceed s1 where gate: "should_check E ''engagement'' 120 (clock w) (bot w) = Inr (proceed, s1)"
    using run by (cases "should_check E ''engagement'' 120 (clock w) (bot w)")
      (auto simp: check_tweet_engagement_def)
  have kept: "tweet_metrics s1 = tweet_metrics (bot w)"
    by (rule should_check_tweet_metrics[OF gate])
  obtain r w2 where call: "safe_api_call (get_users_tweets A) (w\<lparr> bot := s1 \<rparr>) = (r, w2)"
    by (cases "safe_api_call (get_users_tweets A) (w\<lparr> bot := s1 \<rparr>)") auto
  have w2: "bot w2 = s1" using safe_api_call_frame[OF call] by simp
  show ?thesis
  proof (cases "proceed \<and> last_tweet_id s1 \<noteq> None \<and> (\<exists>t ts. r = Some (t # ts))")
    case False
    then have "w' = w\<lparr> bot := s1 \<rparr> \<or> w' = w2"
      using run gate call
      by (auto simp: check_tweet_engagement_def split: if_splits option.splits list.splits)
    then show ?thesis using small kept w2 by auto
  next
    case True
    then obtain t ts where r: "r = Some (t # ts)" by auto
    obtain w3 flag where loop: "engagement_loop E (t # ts) (w2, False) = (w3, flag)"
      by (cases "engagement_loop E (t # ts) (w2, False)") auto
    have "flag" using engagement_loop_flag[of E "t # ts" w2 False] loop by simp
    then have "w' = persist E fault
        (w3\<lparr> bot := (bot w3)\<lparr> tweet_metrics := evict_metrics (tweet_metrics (bot w3)) \<rparr> \<rparr>)"
      using run gate call True r loop by (auto simp: check_tweet_engagement_def)
    then show ?thesis by (simp add: persist_def evict_metrics_bounded)
  qed
qed

lemma old_post_keys:
  "map (\<lambda>i. (str_int i, quiet)) old_post_ids =
     [(''999999999999999991'', quiet), (''999999999999999992'', quiet),
      (''999999999999999993'', quiet), (''999999999999999994'', quiet),
      (''999999999999999995'', quiet), (''999999999999999996'', quiet),
      (''999999999999999997'', quiet), (''999999999999999998'', quiet),
      (''999999999999999999'', quiet), (''1000000000000000000'', quiet)]"
  by (simp add: old_post_ids_def str_int_def str_nat.simps digit_def)

lemma new_post_key: "str_int 1000000000000000001 = ''1000000000000000001''"
  by (simp add: str_int_def str_nat.simps digit_def)

lemma posts_sorted:
  "sort [''999999999999999991'', ''999999999999999992'', ''999999999999999993'',
         ''999999999999999994'', ''999999999999999995'', ''999999999999999996'',
         ''999999999999999997'', ''999999999999999998'', ''999999999999999999'',
         ''1000000000000000000'', ''1000000000000000001''] =
     [''1000000000000000000'', ''1000000000000000001'', ''999999999999999991'',
      ''999999999999999992'', ''999999999999999993'', ''999999999999999994'',
      ''999999999999999995'', ''999999999999999996'', ''999999999999999997'',
      ''999999999999999998'', ''999999999999999999'']"
  by (simp add: sort_key_def)

text \<open>
  Claim C8, the part that fails. Ten posts are tracked, nine with 18-digit ids and the
  post 1000000000000000000; the newer post 1000000000000000001 is fetched. The keys are
  strings and \<^verbatim>\<open>sorted\<close> compares them character by character, so every 18-digit id
  (they start with 9) ranks above every 19-digit id (they start with 1): the post dropped
  is 1000000000000000000, the second newest, and the oldest post 999999999999999991 stays.
\<close>

theorem check_tweet_engagement_evicts_by_string_order:
  "check_tweet_engagement test_env (posts_api [new_post]) No_fault posts_sys =
     Inr (persist test_env No_fault
       (posts_sys\<lparr> bot := (bot posts_sys)\<lparr>
          tweet_metrics :=
            [(''999999999999999999'', quiet), (''999999999999999998'', quiet),
             (''999999999999999997'', quiet), (''999999999999999996'', quiet),
             (''999999999999999995'', quiet), (''999999999999999994'', quiet),
             (''999999999999999993'', quiet), (''999999999999999992'', quiet),
             (''999999999999999991'', quiet), (''1000000000000000001'', quiet)],
          last_check_time := [(''engagement'', DT 0)] \<rparr> \<rparr>))"
  by (simp add: check_tweet_engagement_def should_check_def safe_api_call_returns posts_api_def
      engagement_step_def store_metrics_def posts_sys_def idle_sys_def idle_bot_def new_post_def
      new_post_key old_post_keys evict_metrics_def posts_sorted Let_def)

text \<open>The other three detectors do not touch the tracked metrics.\<close>

lemma check_new_followers_tweet_metrics:
  assumes "check_new_followers E A fault w = Inr w'"
  shows "tweet_metrics (bot w') = tweet_metrics (bot w)"
proof -
  obtain proceed s1 where gate: "should_check E ''followers'' 60 (clock w) (bot w) = Inr (proceed, s1)"
    using assms by (cases "should_check E ''followers'' 60 (clock w) (bot w)")
      (auto simp: check_new_followers_def)
  obtain r w2 where call: "safe_api_call (get_user A) (w\<lparr> bot := s1 \<rparr>) = (r, w2)"
    by (cases "safe_api_call (get_user A) (w\<lparr> bot := s1 \<rparr>)") auto
  have "tweet_metrics (bot w2) = tweet_metrics (bot w)"
    using safe_api_call_frame[OF call] should_check_tweet_metrics[OF gate] by simp
  then show ?thesis
    using assms gate call should_check_tweet_metrics[OF gate]
    by (auto simp: check_new_followers_def persist_def notify_def log_notification_def Let_def
        split: if_splits option.splits)
qed

lemma check_new_tweets_tweet_metrics:
  assumes "check_new_tweets E A fault w = Inr w'"
  shows "tweet_metrics (bot w') = tweet_metrics (bot w)"
proof -
  obtain proceed s1 where gate: "should_check E ''tweets'' 30 (clock w) (bot w) = Inr (proceed, s1)"
    using assms by (cases "should_check E ''tweets'' 30 (clock w) (bot w)")
      (auto simp: check_new_tweets_def)
  obtain r w2 where call: "safe_api_call (get_users_tweets A) (w\<lparr> bot := s1 \<rparr>) = (r, w2)"
    by (cases "safe_api_call (get_users_tweets A) (w\<lparr> bot := s1 \<rparr>)") auto
  have "tweet_metrics (bot w2) = tweet_metrics (bot w)"
    using safe_api_call_frame[OF call] should_check_tweet_metrics[OF gate] by simp
  then show ?thesis
    using assms gate call should_check_tweet_metrics[OF gate]
    by (auto simp: check_new_tweets_def persist_def notify_def log_notification_def Let_def
        split: if_splits option.splits list.splits)
qed

lemma check_mentions_tweet_metrics:
  assumes "check_mentions E A fault w = Inr w'"
  shows "tweet_metrics (bot w') = tweet_metrics (bot w)"
proof -
  obtain proceed s1 where gate: "should_check E ''mentions'' 45 (clock w) (bot w) = Inr (proceed, s1)"
    using assms by (cases "should_check E ''mentions'' 45 (clock w) (bot w)")
      (auto simp: check_mentions_def)
  obtain r w2 where call: "safe_api_call (get_users_mentions A) (w\<lparr> bot := s1 \<rparr>) = (r, w2)"
    by (cases "safe_api_call (get_users_mentions A) (w\<lparr> bot := s1 \<rparr>)") auto
  have w2: "tweet_metrics (bot w2) = tweet_metrics (bot w)"
    using safe_api_call_frame[OF call] should_check_tweet_metrics[OF gate] by simp
  have after: "tweet_metrics (bot w3) = tweet_metrics (bot w)"
    if "safe_api_call (get_users A ids) w2 = (authors, w3)" for ids authors w3
    using safe_api_call_frame[OF that] w2 by simp
  show ?thesis
    using assms gate call should_check_tweet_metrics[OF gate] w2 after
    by (auto simp: check_mentions_def persist_def mentions_loop_closed_form Let_def
        split: if_splits option.splits list.splits prod.splits)
qed

end
